theory Spec2Isabelle
  imports Complex_Main "HOL-Library.AList"
begin

section \<open>JavaScript values used by the analysis agents\<close>

text \<open>
  Strings are \<open>string\<close> (character lists); the helpers below are the \<open>String.prototype\<close>
  methods the agents call, on ASCII text.  A JavaScript \<open>Map\<close> is an association list
  in insertion order: \<open>map_of\<close> is \<open>Map.get\<close>, \<open>AList.update\<close> is \<open>Map.set\<close> (it
  replaces the value of a present key in place and appends an absent key), and a
  \<open>Set\<close> is a list without repetition in insertion order.
\<close>

fun startsWith :: "string \<Rightarrow> string \<Rightarrow> bool" where
  "startsWith s [] = True"
| "startsWith [] (p # ps) = False"
| "startsWith (c # cs) (p # ps) = (c = p \<and> startsWith cs ps)"

definition endsWith :: "string \<Rightarrow> string \<Rightarrow> bool" where
  "endsWith s p = startsWith (rev s) (rev p)"

fun str_includes :: "string \<Rightarrow> string \<Rightarrow> bool" where
  "str_includes [] p = (p = [])"
| "str_includes (c # cs) p = (startsWith (c # cs) p \<or> str_includes cs p)"

text \<open>
  \<open>s.replace(pat, rep)\<close> for a string pattern: the first occurrence only.  The replacement
  is expanded as \<open>GetSubstitution\<close> does without captures: \<open>$$\<close> is a dollar sign,
  \<open>$&\<close> the match, \<open>$`\<close> the text before it and \<open>$'\<close> the text after it.
\<close>

fun getSubstitution :: "string \<Rightarrow> string \<Rightarrow> string \<Rightarrow> string \<Rightarrow> string" where
  "getSubstitution matched preceding following [] = []"
| "getSubstitution matched preceding following [c] = [c]"
| "getSubstitution matched preceding following (c # d # rest) =
     (if c = CHR ''$'' then
        (if d = CHR ''$'' then CHR ''$'' # getSubstitution matched preceding following rest
         else if d = CHR ''&'' then matched @ getSubstitution matched preceding following rest
         else if d = CHR 0x60 then preceding @ getSubstitution matched preceding following rest
         else if d = CHR 0x27 then following @ getSubstitution matched preceding following rest
         else c # getSubstitution matched preceding following (d # rest))
      else c # getSubstitution matched preceding following (d # rest))"

fun replaceFrom :: "string \<Rightarrow> string \<Rightarrow> string \<Rightarrow> string \<Rightarrow> string" where
  "replaceFrom preceding [] pat rep =
     (if pat = [] then preceding @ getSubstitution [] preceding [] rep else preceding)"
| "replaceFrom preceding (c # cs) pat rep =
     (if startsWith (c # cs) pat
      then preceding @ getSubstitution pat preceding (drop (length pat) (c # cs)) rep
             @ drop (length pat) (c # cs)
      else replaceFrom (preceding @ [c]) cs pat rep)"

definition replaceFirst :: "string \<Rightarrow> string \<Rightarrow> string \<Rightarrow> string" where
  "replaceFirst s pat rep = replaceFrom [] s pat rep"

fun split :: "char \<Rightarrow> string \<Rightarrow> string list" where
  "split sep [] = [[]]"
| "split sep (c # cs) =
     (if c = sep then [] # split sep cs
      else (case split sep cs of [] \<Rightarrow> [[c]] | p # ps \<Rightarrow> (c # p) # ps))"

text \<open>\<open>s.replace(/\.[^.]+$/, '')\<close>: a last dot that is followed by at least one
  character is cut off together with what follows it.\<close>

definition stripExt :: "string \<Rightarrow> string" where
  "stripExt s =
     (let tl_rev = takeWhile (\<lambda>c. c \<noteq> CHR ''.'') (rev s)
      in if tl_rev \<noteq> [] \<and> length tl_rev < length s
         then take (length s - length tl_rev - 1) s else s)"

text \<open>\<open>s.replace(/\/$/, '')\<close>: one trailing slash is removed.\<close>

definition stripTrailingSlash :: "string \<Rightarrow> string" where
  "stripTrailingSlash s = (if s \<noteq> [] \<and> last s = CHR ''/'' then butlast s else s)"

definition set_add :: "'a \<Rightarrow> 'a list \<Rightarrow> 'a list" where
  "set_add x s = (if x \<in> set s then s else s @ [x])"

definition map_has :: "('k \<times> 'v) list \<Rightarrow> 'k \<Rightarrow> bool" where
  "map_has m k = (map_of m k \<noteq> None)"

definition joinWith :: "string \<Rightarrow> string list \<Rightarrow> string" where
  "joinWith sep xs = (case xs of [] \<Rightarrow> [] | y # ys \<Rightarrow> y @ concat (map (\<lambda>z. sep @ z) ys))"

text \<open>\<open>toLowerCase\<close> and \<open>trim\<close> on ASCII: the letters A to Z, and the white space
  characters tab, line feed, vertical tab, form feed, carriage return and space.\<close>

definition lowerChar :: "char \<Rightarrow> char" where
  "lowerChar c =
     (if (65::nat) \<le> of_char c \<and> of_char c \<le> (90::nat) then char_of (of_char c + (32::nat)) else c)"

definition toLowerCase :: "string \<Rightarrow> string" where
  "toLowerCase s = map lowerChar s"

definition isSpace :: "char \<Rightarrow> bool" where
  "isSpace c = (c = CHR 0x20 \<or> ((9::nat) \<le> of_char c \<and> of_char c \<le> (13::nat)))"

definition trim :: "string \<Rightarrow> string" where
  "trim s = rev (dropWhile isSpace (rev (dropWhile isSpace s)))"

text \<open>
  Numbers are IEEE doubles in the source.  Counts are natural numbers; a quotient, product
  or sum that need not be an integer is a rational to which the platform's rounding
  \<open>rnd\<close> has been applied, one rounding per arithmetic operation, as the hardware does.
  \<open>binary64\<close> below is the rounding of the platform.  Properties that do not depend on
  the digits of a result are proved for every rounding that is monotone and leaves the
  integers from 0 to 100 unchanged, which \<open>binary64\<close> is.
  \<open>Math.round\<close> is exact: the nearest integer, a tie going up.
\<close>

definition rnd_ok :: "(rat \<Rightarrow> rat) \<Rightarrow> bool" where
  "rnd_ok rnd = (mono rnd \<and> list_all (\<lambda>k. rnd (of_nat k) = of_nat k) [0..<101])"

definition js_round :: "rat \<Rightarrow> int" where
  "js_round x = \<lfloor>x + 1 / 2\<rfloor>"

text \<open>The result of an arithmetic operation on doubles is the exact result rounded to
  the nearest double, a tie going to the double with an even significand.  A double has a
  significand of 53 bits: around a number with exponent \<open>e\<close> the doubles are the
  multiples of \<open>2 powi (e - 52)\<close>.  The exponent of a normal double is at least -1022;
  below, the doubles are the multiples of \<open>2 powi (- 1074)\<close>.  The largest double is
  not modelled: no operation of the agents comes near it.\<close>

text \<open>The number of binary digits of a natural number.\<close>

fun bitLength :: "nat \<Rightarrow> nat" where
  "bitLength n = (if n = 0 then 0 else Suc (bitLength (n div 2)))"

text \<open>The exponent \<open>e\<close> of a positive number \<open>x\<close>: \<open>2 powi e \<le> x < 2 powi (e + 1)\<close>.\<close>

definition exponentOf :: "rat \<Rightarrow> int" where
  "exponentOf x =
     (if 1 \<le> x then int (bitLength (nat \<lfloor>x\<rfloor>)) - 1
      else - int (bitLength (nat (\<lceil>1 / x\<rceil> - 1))))"

text \<open>The nearest integer, a tie going to the even one.\<close>

definition roundHalfEven :: "rat \<Rightarrow> int" where
  "roundHalfEven y =
     (let n = \<lfloor>y\<rfloor>; r = y - of_int n
      in if r < 1 / 2 then n else if 1 / 2 < r then n + 1 else if even n then n else n + 1)"

text \<open>The distance between the doubles around \<open>x\<close>.\<close>

definition quantum :: "rat \<Rightarrow> rat" where
  "quantum x = 2 powi (max (exponentOf \<bar>x\<bar>) (- 1022) - 52)"

text \<open>The double nearest to \<open>x\<close>.\<close>

definition binary64 :: "rat \<Rightarrow> rat" where
  "binary64 x =
     (if x = 0 then 0
      else sgn x * of_int (roundHalfEven (\<bar>x\<bar> / quantum x)) * quantum x)"

declare bitLength.simps [simp del]

section \<open>Shared types (types.ts)\<close>

datatype Language = typescript | javascript | vue | css | json | other

record FileNode =
  path :: string
  relativePath :: string
  extension :: string
  loc :: nat
  language :: Language
  package :: string

record ImportEdge =
  source :: string
  target :: string
  specifiers :: "string list"
  isDefault :: bool
  isDynamic :: bool

datatype SignalType = folder | route | import_cluster | git_cochange | store_module

record FeatureSignal =
  sig_type :: SignalType
  weight :: rat
  detail :: string

record Feature =
  feature_id :: string
  feature_files :: "string list"
  entryPoints :: "string list"
  confidence :: rat
  signals :: "FeatureSignal list"
  isCrossCutting :: bool

record FileMetrics =
  m_file :: string
  m_loc :: nat
  cyclomaticComplexity :: nat
  cognitiveComplexity :: nat
  importCount :: nat
  exportCount :: nat
  functionCount :: nat
  maxFunctionLength :: nat
  propCount :: nat
  m_fanIn :: nat
  m_fanOut :: nat

datatype Severity = critical | high | medium | low

record ImpactNode =
  impact_file :: string
  fanIn :: nat
  featureCount :: nat
  gitChurn :: nat
  hasTests :: bool
  impactScore :: int
  severity :: Severity

record GitChurn =
  churn_file :: string
  commitCount :: nat
  authorCount :: nat
  lastModified :: string
  coChangedWith :: "string list"

record SymbolEntry =
  sym_name :: string
  sym_kind :: string
  sym_file :: string
  sym_line :: nat
  sym_isDefault :: bool
  isExported :: bool

record HashEntry =
  entry_file :: string
  lineStart :: nat
  entry_snippet :: string

record DuplicationMatch =
  fileA :: string
  fileB :: string
  lineStartA :: nat
  lineStartB :: nat
  lineCount :: nat
  hash :: string
  snippet :: string

record DetectedPackage =
  dir :: string
  framework :: string
  pkg_name :: string
  pkg_aliases :: "(string \<times> string) list"

text \<open>Of \<open>ProjectConfig\<close>, the fields the modelled agents read.  \<open>aliases\<close> is a
  \<open>Record<string, string>\<close>: its entries in property order.\<close>

record ProjectConfig =
  packages :: "DetectedPackage list"
  aliases :: "(string \<times> string) list"
  conventionPaths :: "string list"

text \<open>Of \<open>InspectorStore\<close>, the fields the modelled agents read or write.
  \<open>store.featureScores\<close> is kept as the pairs of \<open>featureId\<close> and \<open>testCoverage\<close>.\<close>

record InspectorStore =
  skipGit :: bool
  config :: "ProjectConfig option"
  files :: "(string \<times> FileNode) list"
  importGraph :: "ImportEdge list"
  symbols :: "SymbolEntry list"
  features :: "Feature list"
  fileMetrics :: "(string \<times> FileMetrics) list"
  featureScores :: "(string \<times> rat) list"
  duplications :: "DuplicationMatch list"
  impactNodes :: "ImpactNode list"
  gitChurns :: "(string \<times> GitChurn) list"

text \<open>
  What the agents call outside the modelled files: the file system (\<open>readFileSafe\<close>
  returns the empty string for an unreadable file), the helpers of \<open>utils/ast\<close> and the
  SHA-256 digest in hexadecimal.  They are parameters of the model.
\<close>

record Externals =
  readFileSafe :: "string \<Rightarrow> string"
  extractVueScriptContent :: "string \<Rightarrow> string"
  calculateCyclomaticComplexity :: "string \<Rightarrow> nat"
  calculateCognitiveComplexity :: "string \<Rightarrow> nat"
  countFunctions :: "string \<Rightarrow> nat \<times> nat"
  countProps :: "string \<Rightarrow> nat"
  sha256hex :: "string \<Rightarrow> string"

datatype error = TypeError

section \<open>Node's posix path functions\<close>

text \<open>\<open>path.basename\<close>: trailing slashes are ignored, the last segment is returned.\<close>

definition basename :: "string \<Rightarrow> string" where
  "basename p =
     rev (takeWhile (\<lambda>c. c \<noteq> CHR ''/'') (dropWhile (\<lambda>c. c = CHR ''/'') (rev p)))"

text \<open>\<open>path.dirname\<close>: the path up to the last slash that follows a non-slash, looking
  from the end and not at the first character.\<close>

definition dirname :: "string \<Rightarrow> string" where
  "dirname p =
     (case p of [] \<Rightarrow> ''.''
      | c # cs \<Rightarrow>
          let hasRoot = (c = CHR ''/'');
              r = dropWhile (\<lambda>x. x \<noteq> CHR ''/'') (dropWhile (\<lambda>x. x = CHR ''/'') (rev cs))
          in if r = [] then (if hasRoot then ''/'' else ''.'')
             else if hasRoot \<and> length r = 1 then ''//''
             else take (length r) p)"

text \<open>\<open>normalizeString\<close> on the segments between slashes: empty segments and \<open>.\<close> are
  dropped, \<open>..\<close> removes the segment before it, or is kept when there is none to remove
  and the path is relative.  The accumulator holds the kept segments, last first.\<close>

fun normalizeSegments :: "bool \<Rightarrow> string list \<Rightarrow> string list \<Rightarrow> string list" where
  "normalizeSegments allowAboveRoot [] acc = rev acc"
| "normalizeSegments allowAboveRoot (seg # segs) acc =
     (if seg = [] \<or> seg = ''.'' then normalizeSegments allowAboveRoot segs acc
      else if seg = ''..'' then
        (case acc of
           [] \<Rightarrow> normalizeSegments allowAboveRoot segs (if allowAboveRoot then [''..''] else [])
         | lastSeg # below \<Rightarrow>
             if lastSeg \<noteq> ''..'' then normalizeSegments allowAboveRoot segs below
             else normalizeSegments allowAboveRoot segs
                    (if allowAboveRoot then ''..'' # acc else acc))
      else normalizeSegments allowAboveRoot segs (seg # acc))"

definition normalize :: "string \<Rightarrow> string" where
  "normalize p =
     (if p = [] then ''.''
      else
        let isAbsolute = (hd p = CHR ''/'');
            trailingSeparator = (last p = CHR ''/'');
            q = joinWith ''/'' (normalizeSegments (\<not> isAbsolute) (split CHR ''/'' p) [])
        in if q = [] then (if isAbsolute then ''/'' else if trailingSeparator then ''./'' else ''.'')
           else (if isAbsolute then ''/'' else []) @ q @ (if trailingSeparator then ''/'' else []))"

text \<open>\<open>path.join\<close> of two arguments: the non-empty ones joined by a slash, normalized.\<close>

definition join :: "string \<Rightarrow> string \<Rightarrow> string" where
  "join a b =
     (if a = [] \<and> b = [] then ''.''
      else if a = [] then normalize b
      else if b = [] then normalize a
      else normalize (a @ ''/'' @ b))"

section \<open>fs-utils.ts\<close>

definition isTestFile :: "string \<Rightarrow> bool" where
  "isTestFile filePath =
     (let name = basename filePath in
        str_includes name ''.spec.'' \<or>
        str_includes name ''.test.'' \<or>
        str_includes name ''__test'' \<or>
        str_includes filePath ''/test/'' \<or>
        str_includes filePath ''/tests/'' \<or>
        str_includes filePath ''/__tests__/'' \<or>
        str_includes filePath ''/cypress/'' \<or>
        str_includes filePath ''/e2e/'')"

section \<open>Import resolution (repo-indexer.ts)\<close>

definition extensions :: "string list" where
  "extensions =
     [''.ts'', ''.tsx'', ''.js'', ''.jsx'', ''.vue'', ''.svelte'', ''.mjs'',
      ''/index.ts'', ''/index.tsx'', ''/index.js'', ''/index.jsx'', ''/index.vue'']"

definition isRelative :: "string \<Rightarrow> bool" where
  "isRelative importPath = (startsWith importPath ''.'' \<or> startsWith importPath ''/'')"

definition isAliased :: "(string \<times> string) list \<Rightarrow> string \<Rightarrow> bool" where
  "isAliased als importPath =
     list_ex (\<lambda>entry. startsWith importPath (stripTrailingSlash (fst entry))) als"

text \<open>The loop over \<open>Object.entries(aliases)\<close>, left by \<open>break\<close> at the first alias that
  matches.\<close>

fun applyAliases :: "(string \<times> string) list \<Rightarrow> string \<Rightarrow> string" where
  "applyAliases [] importPath = importPath"
| "applyAliases (entry # rest) importPath =
     (let cleanAlias = stripTrailingSlash (fst entry) in
      if startsWith importPath (cleanAlias @ ''/'') \<or> importPath = cleanAlias
      then replaceFirst importPath cleanAlias (stripTrailingSlash (snd entry))
      else applyAliases rest importPath)"

text \<open>\<open>s.replace(/\\/g, '/')\<close>\<close>

definition backslashesToSlashes :: "string \<Rightarrow> string" where
  "backslashesToSlashes s = map (\<lambda>c. if c = CHR 0x5C then CHR ''/'' else c) s"

definition relativeToImporter :: "string \<Rightarrow> string \<Rightarrow> string" where
  "relativeToImporter fromFile resolvedPath =
     (if startsWith resolvedPath ''.''
      then backslashesToSlashes (join (dirname fromFile) resolvedPath)
      else resolvedPath)"

fun tryExtensions :: "(string \<times> FileNode) list \<Rightarrow> string \<Rightarrow> string list \<Rightarrow> string option" where
  "tryExtensions fls resolvedPath [] = None"
| "tryExtensions fls resolvedPath (ext # exts) =
     (if map_has fls (resolvedPath @ ext) then Some (resolvedPath @ ext)
      else tryExtensions fls resolvedPath exts)"

definition resolveImportPath ::
  "string \<Rightarrow> string \<Rightarrow> string \<Rightarrow> InspectorStore \<Rightarrow> (string \<times> string) list \<Rightarrow> string option" where
  "resolveImportPath importPath fromFile rootDir store als =
     (if \<not> isRelative importPath \<and> \<not> isAliased als importPath then None
      else
        let resolvedPath = relativeToImporter fromFile (applyAliases als importPath) in
        if map_has (files store) resolvedPath then Some resolvedPath
        else (case tryExtensions (files store) resolvedPath extensions of
                Some candidate \<Rightarrow> Some candidate
              | None \<Rightarrow>
                  let withoutExt = stripExt resolvedPath in
                  if map_has (files store) withoutExt then Some withoutExt else None))"

text \<open>The candidates in the words of the specification: the exact path, the path plus
  each known source extension, the path plus \<open>/index\<close> plus each extension, the path with
  its own extension stripped.\<close>

definition spec_sourceExtensions :: "string list" where
  "spec_sourceExtensions = [''.ts'', ''.tsx'', ''.js'', ''.jsx'', ''.vue'', ''.svelte'', ''.mjs'']"

definition spec_candidates :: "string \<Rightarrow> string list" where
  "spec_candidates p =
     [p] @ map (\<lambda>e. p @ e) spec_sourceExtensions
         @ map (\<lambda>e. p @ ''/index'' @ e) spec_sourceExtensions
         @ [stripExt p]"

definition spec_resolve ::
  "string \<Rightarrow> string \<Rightarrow> InspectorStore \<Rightarrow> (string \<times> string) list \<Rightarrow> string option" where
  "spec_resolve importPath fromFile store als =
     (if \<not> isRelative importPath \<and> \<not> isAliased als importPath then None
      else List.find (map_has (files store))
             (spec_candidates (relativeToImporter fromFile (applyAliases als importPath))))"

section \<open>Feature grouper (feature-grouper.ts)\<close>

definition SHARED_DIRS :: "string list" where
  "SHARED_DIRS =
     [''common'', ''shared'', ''utils'', ''helpers'', ''types'', ''assets'', ''styles'',
      ''static'', ''public'', ''test-utils'', ''support'', ''plugin'', ''plugins'',
      ''middleware'', ''layouts'', ''composables'', ''hooks'', ''lib'', ''config'',
      ''constants'', ''interfaces'', ''models'', ''services'', ''api'', ''i18n'',
      ''locales'', ''theme'', ''__tests__'', ''tests'', ''test'', ''mocks'',
      ''__mocks__'', ''fixtures'', ''cypress'', ''e2e'', ''node_modules'',
      ''dist'', ''build'', ''ag-grid'']"

definition FEATURE_CONTAINERS :: "string list" where
  "FEATURE_CONTAINERS =
     [''src'', ''components'', ''features'', ''modules'', ''views'', ''store'',
      ''pages'', ''screens'', ''app'', ''sections'', ''domains'', ''patterns'']"

text \<open>\<open>createFeature\<close>; the display name and the description, which are derived from
  the id and read by no modelled agent, are left out of the record.\<close>

definition createFeature :: "string \<Rightarrow> Feature" where
  "createFeature i =
     \<lparr> feature_id = i, feature_files = [], entryPoints = [], confidence = 0,
       signals = [], isCrossCutting = False \<rparr>"

definition isFeatureName :: "string \<Rightarrow> bool" where
  "isFeatureName candidate =
     (toLowerCase candidate \<notin> set SHARED_DIRS \<and> \<not> startsWith candidate ''.'')"

text \<open>Pattern \<open>{featureContainer}/{Feature}/...\<close>\<close>

definition featureUnderContainer :: "string list \<Rightarrow> string option" where
  "featureUnderContainer parts =
     (case parts of
        p0 # p1 # rest \<Rightarrow>
          if p0 \<in> set FEATURE_CONTAINERS \<and> isFeatureName p1 then Some p1 else None
      | _ \<Rightarrow> None)"

text \<open>Pattern \<open>{featureContainer}/{sub}/{Feature}/...\<close>\<close>

definition featureUnderSubContainer :: "string list \<Rightarrow> string option" where
  "featureUnderSubContainer parts =
     (case parts of
        p0 # sub # p2 # rest \<Rightarrow>
          if p0 \<in> set FEATURE_CONTAINERS \<and> (sub \<in> set FEATURE_CONTAINERS \<or> sub = ''patterns'')
             \<and> isFeatureName p2
          then Some p2 else None
      | _ \<Rightarrow> None)"

fun detectInPackages :: "string \<Rightarrow> string list \<Rightarrow> DetectedPackage list \<Rightarrow> string option" where
  "detectInPackages filePath parts [] = None"
| "detectInPackages filePath parts (pkg # pkgs) =
     (if \<not> startsWith filePath (dir pkg @ ''/'') then detectInPackages filePath parts pkgs
      else
        let innerParts = drop (length (split CHR ''/'' (dir pkg))) parts in
        case featureUnderContainer innerParts of
          Some candidate \<Rightarrow> Some candidate
        | None \<Rightarrow>
            (case featureUnderSubContainer innerParts of
               Some candidate \<Rightarrow> Some candidate
             | None \<Rightarrow> detectInPackages filePath parts pkgs))"

definition detectFeatureFromPath :: "string \<Rightarrow> ProjectConfig option \<Rightarrow> string option" where
  "detectFeatureFromPath filePath cfg =
     (let parts = split CHR ''/'' filePath;
          pkgs = (case cfg of None \<Rightarrow> [] | Some c \<Rightarrow> packages c)
      in case detectInPackages filePath parts pkgs of
           Some candidate \<Rightarrow> Some candidate
         | None \<Rightarrow> featureUnderContainer parts)"

definition detectFeatureFromRoute :: "string \<Rightarrow> string \<Rightarrow> string option" where
  "detectFeatureFromRoute filePath pagesPrefix =
     (let routePart = replaceFirst filePath pagesPrefix [];
          parts = split CHR ''/'' routePart
      in case parts of
           [] \<Rightarrow> None
         | p0 # rest \<Rightarrow>
             if p0 \<noteq> [] \<and> \<not> startsWith p0 ''_'' \<and> \<not> startsWith p0 ''.'' then
               (let featureId = stripExt p0 in
                if featureId \<noteq> [] \<and> featureId \<noteq> ''index'' then Some featureId else None)
             else None)"

text \<open>The two maps of \<open>run\<close>: \<open>featureMap\<close> from feature id to feature and
  \<open>fileToFeature\<close> from file to feature id.\<close>

record GrouperState =
  featureMap :: "(string \<times> Feature) list"
  fileToFeature :: "(string \<times> string) list"

definition emptyState :: GrouperState where
  "emptyState = \<lparr> featureMap = [], fileToFeature = [] \<rparr>"

definition mkSignal :: "SignalType \<Rightarrow> rat \<Rightarrow> string \<Rightarrow> FeatureSignal" where
  "mkSignal ty w d = \<lparr> sig_type = ty, weight = w, detail = d \<rparr>"

text \<open>Signal 1, the body of the loop for one file.  A feature that is not in the map is
  created first; the push onto its arrays is the update of its entry.\<close>

definition signal1_step :: "ProjectConfig option \<Rightarrow> string \<Rightarrow> GrouperState \<Rightarrow> GrouperState" where
  "signal1_step cfg rel st =
     (case detectFeatureFromPath rel cfg of
        None \<Rightarrow> st
      | Some featureId \<Rightarrow>
          if featureId = [] then st
          else
            let feature = (case map_of (featureMap st) featureId of
                             None \<Rightarrow> createFeature featureId | Some f \<Rightarrow> f)
            in st \<lparr> featureMap :=
                      AList.update featureId
                        (feature \<lparr> feature_files := feature_files feature @ [rel],
                                   signals := signals feature @
                                     [mkSignal folder (35 / 100)
                                        (''File path contains feature folder: '' @ featureId)] \<rparr>)
                        (featureMap st),
                    fileToFeature := AList.update rel featureId (fileToFeature st) \<rparr>)"

definition signal1 :: "ProjectConfig option \<Rightarrow> string list \<Rightarrow> GrouperState \<Rightarrow> GrouperState" where
  "signal1 cfg rels st = fold (signal1_step cfg) rels st"

definition pagesDirsOf :: "ProjectConfig option \<Rightarrow> string list" where
  "pagesDirsOf cfg =
     filter (\<lambda>p. endsWith p ''pages/'' \<or> endsWith p ''app/'' \<or> endsWith p ''routes/'')
       (case cfg of None \<Rightarrow> [] | Some c \<Rightarrow> conventionPaths c)"

text \<open>Signal 2, the body of the inner loop for one file and one pages directory.\<close>

definition signal2_step :: "string \<Rightarrow> string \<Rightarrow> GrouperState \<Rightarrow> GrouperState" where
  "signal2_step rel pagesDir st =
     (if \<not> startsWith rel pagesDir then st
      else
        case detectFeatureFromRoute rel pagesDir of
          None \<Rightarrow> st
        | Some routeFeature \<Rightarrow>
            if routeFeature = [] then st
            else
              (case map_of (featureMap st) routeFeature of
                 Some feature \<Rightarrow>
                   st \<lparr> featureMap :=
                     AList.update routeFeature
                       (feature \<lparr> entryPoints :=
                                    (if rel \<in> set (entryPoints feature) then entryPoints feature
                                     else entryPoints feature @ [rel]),
                                  signals := signals feature @
                                    [mkSignal route (30 / 100) (''Page route: '' @ rel)] \<rparr>)
                       (featureMap st) \<rparr>
               | None \<Rightarrow>
                   let feature = createFeature routeFeature in
                   st \<lparr> featureMap :=
                          AList.update routeFeature
                            (feature \<lparr> feature_files := feature_files feature @ [rel],
                                       entryPoints := entryPoints feature @ [rel],
                                       signals := signals feature @
                                         [mkSignal route (30 / 100) (''Page route: '' @ rel)] \<rparr>)
                            (featureMap st),
                        fileToFeature := AList.update rel routeFeature (fileToFeature st) \<rparr>))"

definition signal2 :: "ProjectConfig option \<Rightarrow> string list \<Rightarrow> GrouperState \<Rightarrow> GrouperState" where
  "signal2 cfg rels st =
     fold (\<lambda>rel st'. fold (signal2_step rel) (pagesDirsOf cfg) st') rels st"

text \<open>A loop whose body may throw: the first error ends it.\<close>

fun forEach :: "('a \<Rightarrow> 's \<Rightarrow> error + 's) \<Rightarrow> 'a list \<Rightarrow> 's \<Rightarrow> error + 's" where
  "forEach body [] st = Inr st"
| "forEach body (x # xs) st =
     (case body x st of Inl e \<Rightarrow> Inl e | Inr st' \<Rightarrow> forEach body xs st')"

text \<open>Signal 3, the body of the loop for one edge.  \<open>featureMap.get(sourceFeature)!\<close> is
  \<open>undefined\<close> for an id that is not in the map, and reading \<open>.files\<close> of it throws.\<close>

definition signal3_step :: "ImportEdge \<Rightarrow> GrouperState \<Rightarrow> error + GrouperState" where
  "signal3_step edge st =
     (case map_of (fileToFeature st) (source edge) of
        None \<Rightarrow> Inr st
      | Some sourceFeature \<Rightarrow>
          if sourceFeature = [] then Inr st
          else
            (case map_of (fileToFeature st) (target edge) of
               Some (c # cs) \<Rightarrow> Inr st
             | _ \<Rightarrow>
                 (case map_of (featureMap st) sourceFeature of
                    None \<Rightarrow> Inl TypeError
                  | Some feature \<Rightarrow>
                      if target edge \<in> set (feature_files feature) then Inr st
                      else Inr (st \<lparr> featureMap :=
                                  AList.update sourceFeature
                                    (feature \<lparr> feature_files := feature_files feature @ [target edge],
                                               signals := signals feature @
                                                 [mkSignal import_cluster (20 / 100)
                                                    (''Imported by '' @ source edge @ '' (feature: ''
                                                       @ sourceFeature @ '')'')] \<rparr>)
                                    (featureMap st),
                                fileToFeature :=
                                  AList.update (target edge) sourceFeature (fileToFeature st) \<rparr>))))"

definition signal3 :: "ImportEdge list \<Rightarrow> GrouperState \<Rightarrow> error + GrouperState" where
  "signal3 edges st = forEach signal3_step edges st"

text \<open>Signal 4, the body of the inner loop for one co-changed file.\<close>

definition signal4_inner ::
  "(string \<times> FileNode) list \<Rightarrow> string \<Rightarrow> string \<Rightarrow> string \<Rightarrow> GrouperState \<Rightarrow> error + GrouperState" where
  "signal4_inner fls churnFile myFeature coFile st =
     (if \<not> map_has (fileToFeature st) coFile \<and> map_has fls coFile then
        (case map_of (featureMap st) myFeature of
           None \<Rightarrow> Inl TypeError
         | Some feature \<Rightarrow>
             if coFile \<in> set (feature_files feature) then Inr st
             else Inr (st \<lparr> featureMap :=
                         AList.update myFeature
                           (feature \<lparr> feature_files := feature_files feature @ [coFile],
                                      signals := signals feature @
                                        [mkSignal git_cochange (15 / 100)
                                           (''Co-changed with '' @ churnFile @ '' in git history'')] \<rparr>)
                           (featureMap st),
                       fileToFeature := AList.update coFile myFeature (fileToFeature st) \<rparr>))
      else Inr st)"

definition signal4_file ::
  "(string \<times> FileNode) list \<Rightarrow> string \<times> GitChurn \<Rightarrow> GrouperState \<Rightarrow> error + GrouperState" where
  "signal4_file fls entry st =
     (case map_of (fileToFeature st) (fst entry) of
        None \<Rightarrow> Inr st
      | Some myFeature \<Rightarrow>
          if myFeature = [] then Inr st
          else forEach (signal4_inner fls (fst entry) myFeature)
                 (take 10 (coChangedWith (snd entry))) st)"

definition signal4 :: "InspectorStore \<Rightarrow> GrouperState \<Rightarrow> error + GrouperState" where
  "signal4 store st =
     (if \<not> skipGit store \<and> length (gitChurns store) > 0
      then forEach (signal4_file (files store)) (gitChurns store) st
      else Inr st)"

text \<open>The pass that assigns the unassigned files to \<open>cross-cutting\<close>.\<close>

definition assignUnassigned_step :: "string \<Rightarrow> GrouperState \<Rightarrow> GrouperState" where
  "assignUnassigned_step rel st =
     (if map_has (fileToFeature st) rel then st
      else
        let featureId = ''cross-cutting'';
            feature = (case map_of (featureMap st) featureId of
                         None \<Rightarrow> (createFeature featureId) \<lparr> isCrossCutting := True \<rparr>
                       | Some f \<Rightarrow> f)
        in st \<lparr> featureMap :=
                  AList.update featureId
                    (feature \<lparr> feature_files := feature_files feature @ [rel] \<rparr>) (featureMap st),
                fileToFeature := AList.update rel featureId (fileToFeature st) \<rparr>)"

definition assignUnassigned :: "string list \<Rightarrow> GrouperState \<Rightarrow> GrouperState" where
  "assignUnassigned rels st = fold assignUnassigned_step rels st"

text \<open>The confidence pass.  A weight holds its decimal literal; the arithmetic on it is
  rounded.\<close>

definition totalWeight :: "(rat \<Rightarrow> rat) \<Rightarrow> FeatureSignal list \<Rightarrow> rat" where
  "totalWeight rnd sigs = fold (\<lambda>s sum. rnd (sum + rnd (weight s))) sigs 0"

definition computeConfidence :: "(rat \<Rightarrow> rat) \<Rightarrow> Feature \<Rightarrow> rat" where
  "computeConfidence rnd feature =
     (let signalTypes = remdups (map sig_type (signals feature));
          avgWeight = (if length (signals feature) > 0
                       then rnd (totalWeight rnd (signals feature) / of_nat (length (signals feature)))
                       else 0)
      in min 1 (rnd (avgWeight + rnd (of_nat (length signalTypes) * rnd (1 / 10)))))"

definition scoreConfidence :: "(rat \<Rightarrow> rat) \<Rightarrow> Feature \<Rightarrow> Feature" where
  "scoreConfidence rnd feature =
     (let c = computeConfidence rnd feature in
      feature \<lparr> confidence := c,
                isCrossCutting := (isCrossCutting feature \<or> c < rnd (3 / 10)) \<rparr>)"

text \<open>The state after the four signals and the pass for the unassigned files.\<close>

definition groupFiles :: "InspectorStore \<Rightarrow> error + GrouperState" where
  "groupFiles store =
     (let rels = map fst (files store);
          st1 = signal1 (config store) rels emptyState;
          st2 = signal2 (config store) rels st1
      in case signal3 (importGraph store) st2 of
           Inl e \<Rightarrow> Inl e
         | Inr st3 \<Rightarrow>
             (case signal4 store st3 of
                Inl e \<Rightarrow> Inl e
              | Inr st4 \<Rightarrow> Inr (assignUnassigned rels st4)))"

definition featureGrouper_run :: "(rat \<Rightarrow> rat) \<Rightarrow> InspectorStore \<Rightarrow> error + InspectorStore" where
  "featureGrouper_run rnd store =
     (case groupFiles store of
        Inl e \<Rightarrow> Inl e
      | Inr st \<Rightarrow> Inr (store \<lparr> features := map (\<lambda>entry. scoreConfidence rnd (snd entry)) (featureMap st) \<rparr>))"

section \<open>Quality analyzer (quality-analyzer.ts)\<close>

text \<open>\<open>m.set(k, (m.get(k) || 0) + 1)\<close>\<close>

definition countStep :: "string \<Rightarrow> (string \<times> nat) list \<Rightarrow> (string \<times> nat) list" where
  "countStep k m = AList.update k ((case map_of m k of None \<Rightarrow> 0 | Some n \<Rightarrow> n) + 1) m"

definition qualityFanInMap :: "ImportEdge list \<Rightarrow> (string \<times> nat) list" where
  "qualityFanInMap edges = fold (\<lambda>edge m. countStep (target edge) m) edges []"

definition qualityFanOutMap :: "ImportEdge list \<Rightarrow> (string \<times> nat) list" where
  "qualityFanOutMap edges = fold (\<lambda>edge m. countStep (source edge) m) edges []"

definition countOrZero :: "(string \<times> nat) list \<Rightarrow> string \<Rightarrow> nat" where
  "countOrZero m k = (case map_of m k of None \<Rightarrow> 0 | Some n \<Rightarrow> n)"

definition codeContentOf :: "Externals \<Rightarrow> FileNode \<Rightarrow> string" where
  "codeContentOf ext fileNode =
     (let content = readFileSafe ext (path fileNode) in
      if language fileNode = vue then extractVueScriptContent ext content else content)"

definition metricsOf ::
  "Externals \<Rightarrow> InspectorStore \<Rightarrow> string \<Rightarrow> FileNode \<Rightarrow> string \<Rightarrow> FileMetrics" where
  "metricsOf ext store rel fileNode codeContent =
     \<lparr> m_file = rel,
       m_loc = loc fileNode,
       cyclomaticComplexity = calculateCyclomaticComplexity ext codeContent,
       cognitiveComplexity = calculateCognitiveComplexity ext codeContent,
       importCount = length (filter (\<lambda>e. source e = rel) (importGraph store)),
       exportCount = length (filter (\<lambda>s. sym_file s = rel \<and> isExported s) (symbols store)),
       functionCount = fst (countFunctions ext codeContent),
       maxFunctionLength = snd (countFunctions ext codeContent),
       propCount = countProps ext codeContent,
       m_fanIn = countOrZero (qualityFanInMap (importGraph store)) rel,
       m_fanOut = countOrZero (qualityFanOutMap (importGraph store)) rel \<rparr>"

text \<open>The body of the loop over \<open>store.files\<close>: a file whose content is blank is
  skipped, the metrics of any other file are stored under its path.\<close>

definition fileMetricsStep ::
  "Externals \<Rightarrow> InspectorStore \<Rightarrow> string \<times> FileNode \<Rightarrow> (string \<times> FileMetrics) list
     \<Rightarrow> (string \<times> FileMetrics) list" where
  "fileMetricsStep ext store entry metrics =
     (let rel = fst entry; fileNode = snd entry; codeContent = codeContentOf ext fileNode in
      if trim codeContent = [] then metrics
      else AList.update rel (metricsOf ext store rel fileNode codeContent) metrics)"

definition computeFileMetrics :: "Externals \<Rightarrow> InspectorStore \<Rightarrow> (string \<times> FileMetrics) list" where
  "computeFileMetrics ext store = fold (fileMetricsStep ext store) (files store) (fileMetrics store)"

text \<open>The test-coverage part of the feature loop; the other sub-scores of the loop body
  are not read by the properties below and are not modelled.\<close>

definition isTestName :: "string \<Rightarrow> bool" where
  "isTestName f = (str_includes f ''.spec.'' \<or> str_includes f ''.test.'')"

definition featureFilesOf :: "(string \<times> FileMetrics) list \<Rightarrow> Feature \<Rightarrow> string list" where
  "featureFilesOf metrics feature = filter (map_has metrics) (feature_files feature)"

definition testFilesAmong :: "string list \<Rightarrow> string list" where
  "testFilesAmong featureFiles =
     filter (\<lambda>f. str_includes f ''.spec.'' \<or> str_includes f ''.test.'' \<or>
                 list_ex (\<lambda>t. str_includes t ''.spec.'' \<or> str_includes t ''.test.'') featureFiles)
       featureFiles"

definition clamp :: "rat \<Rightarrow> rat \<Rightarrow> rat \<Rightarrow> rat" where
  "clamp v lo hi = max lo (min hi v)"

text \<open>\<open>round(v)\<close>: \<open>Math.round(v * 10) / 10\<close>\<close>

definition round1 :: "(rat \<Rightarrow> rat) \<Rightarrow> rat \<Rightarrow> rat" where
  "round1 rnd v = rnd (of_int (js_round (rnd (v * 10))) / 10)"

definition testCoverageScore :: "(rat \<Rightarrow> rat) \<Rightarrow> string list \<Rightarrow> rat" where
  "testCoverageScore rnd featureFiles =
     (let testFiles = testFilesAmong featureFiles;
          testRatio = (if length featureFiles > 0
                       then rnd (of_nat (length testFiles) / of_nat (length featureFiles))
                       else 0)
      in clamp (of_int (js_round (rnd (testRatio * 10)))) 0 10)"

definition featureScoreStep ::
  "(rat \<Rightarrow> rat) \<Rightarrow> (string \<times> FileMetrics) list \<Rightarrow> Feature \<Rightarrow> (string \<times> rat) list
     \<Rightarrow> (string \<times> rat) list" where
  "featureScoreStep rnd metrics feature scores =
     (let featureFiles = featureFilesOf metrics feature in
      if length featureFiles = 0 then scores
      else scores @ [(feature_id feature, round1 rnd (testCoverageScore rnd featureFiles))])"

definition qualityAnalyzer_run :: "(rat \<Rightarrow> rat) \<Rightarrow> Externals \<Rightarrow> InspectorStore \<Rightarrow> InspectorStore" where
  "qualityAnalyzer_run rnd ext store =
     (let metrics = computeFileMetrics ext store in
      store \<lparr> fileMetrics := metrics,
              featureScores := fold (featureScoreStep rnd metrics) (features store) (featureScores store) \<rparr>)"

section \<open>Impact analyzer (impact-analyzer.ts)\<close>

text \<open>The fan-in map: for every edge, the source is added to the \<open>Set\<close> kept for the
  edge's target.\<close>

definition fanInStep :: "ImportEdge \<Rightarrow> (string \<times> string list) list \<Rightarrow> (string \<times> string list) list" where
  "fanInStep edge m =
     (case map_of m (target edge) of
        None \<Rightarrow> AList.update (target edge) [source edge] m
      | Some s \<Rightarrow> AList.update (target edge) (set_add (source edge) s) m)"

definition buildFanInMap :: "ImportEdge list \<Rightarrow> (string \<times> string list) list" where
  "buildFanInMap edges = fold fanInStep edges []"

definition fileToFeaturesStep :: "string \<Rightarrow> string \<Rightarrow> (string \<times> string list) list \<Rightarrow> (string \<times> string list) list" where
  "fileToFeaturesStep fid f m =
     (case map_of m f of
        None \<Rightarrow> AList.update f [fid] m
      | Some s \<Rightarrow> AList.update f (set_add fid s) m)"

definition buildFileToFeatures :: "Feature list \<Rightarrow> (string \<times> string list) list" where
  "buildFileToFeatures fs =
     fold (\<lambda>feature m. fold (fileToFeaturesStep (feature_id feature)) (feature_files feature) m) fs []"

definition testFilesOf :: "(string \<times> FileNode) list \<Rightarrow> string list" where
  "testFilesOf fls = filter isTestFile (map fst fls)"

definition sourceFileOf :: "string \<Rightarrow> string" where
  "sourceFileOf testFile = replaceFirst (replaceFirst testFile ''.spec.'' ''.'') ''.test.'' ''.''"

definition filesWithTests :: "(string \<times> FileNode) list \<Rightarrow> string list" where
  "filesWithTests fls = filter (map_has fls) (map sourceFileOf (testFilesOf fls))"

text \<open>\<open>m.get(k)?.size || 0\<close>\<close>

definition sizeOrZero :: "(string \<times> string list) list \<Rightarrow> string \<Rightarrow> nat" where
  "sizeOrZero m k = (case map_of m k of None \<Rightarrow> 0 | Some s \<Rightarrow> length s)"

definition churnOf :: "(string \<times> GitChurn) list \<Rightarrow> string \<Rightarrow> nat" where
  "churnOf churns rel = (case map_of churns rel of None \<Rightarrow> 0 | Some c \<Rightarrow> commitCount c)"

definition complexityOf :: "(string \<times> FileMetrics) list \<Rightarrow> string \<Rightarrow> nat" where
  "complexityOf metrics rel =
     (case map_of metrics rel of None \<Rightarrow> 0 | Some m \<Rightarrow> cyclomaticComplexity m)"

text \<open>\<open>Math.min(n / d, 1) * w\<close>, each operation rounded.\<close>

definition cappedShare :: "(rat \<Rightarrow> rat) \<Rightarrow> nat \<Rightarrow> rat \<Rightarrow> rat \<Rightarrow> rat" where
  "cappedShare rnd n d w = rnd (min (rnd (of_nat n / d)) 1 * w)"

definition computeImpactScore :: "(rat \<Rightarrow> rat) \<Rightarrow> nat \<Rightarrow> nat \<Rightarrow> nat \<Rightarrow> bool \<Rightarrow> nat \<Rightarrow> int" where
  "computeImpactScore rnd fanIn' featureCount' gitChurn' hasTests' complexity =
     (let fanInScore = cappedShare rnd fanIn' 30 35;
          featureScore = cappedShare rnd featureCount' 5 25;
          churnScore = cappedShare rnd gitChurn' 100 20;
          testScore = (if hasTests' then 0 else 10);
          complexityScore = cappedShare rnd complexity 50 10
      in js_round (rnd (rnd (rnd (rnd (fanInScore + featureScore) + churnScore) + testScore)
                        + complexityScore)))"

definition severityOf :: "int \<Rightarrow> Severity" where
  "severityOf impactScore' =
     (if impactScore' \<ge> 70 then critical
      else if impactScore' \<ge> 50 then high
      else if impactScore' \<ge> 30 then medium else low)"

text \<open>The body of the scoring loop for one entry of \<open>store.files\<close>: \<open>None\<close> is
  \<open>continue\<close>, \<open>Some n\<close> is the node pushed.\<close>

definition scoreFile :: "(rat \<Rightarrow> rat) \<Rightarrow> InspectorStore \<Rightarrow> string \<times> FileNode \<Rightarrow> ImpactNode option" where
  "scoreFile rnd store entry =
     (let rel = fst entry; fileNode = snd entry in
      if isTestFile rel then None
      else if language fileNode = json \<or> language fileNode = css then None
      else
        let fanIn' = sizeOrZero (buildFanInMap (importGraph store)) rel;
            featureCount' = sizeOrZero (buildFileToFeatures (features store)) rel;
            gitChurn' = churnOf (gitChurns store) rel;
            hasTests' = (rel \<in> set (filesWithTests (files store)));
            complexity = complexityOf (fileMetrics store) rel;
            impactScore' = computeImpactScore rnd fanIn' featureCount' gitChurn' hasTests' complexity
        in if impactScore' < 15 then None
           else Some \<lparr> impact_file = rel, fanIn = fanIn', featureCount = featureCount',
                       gitChurn = gitChurn', hasTests = hasTests',
                       impactScore = impactScore', severity = severityOf impactScore' \<rparr>)"

text \<open>\<open>impactAnalyzer.run\<close>: the nodes are pushed onto \<open>store.impactNodes\<close> in the order
  of \<open>store.files\<close>, then the array is sorted by descending score
  (\<open>Array.prototype.sort\<close> is stable).\<close>

definition impactAnalyzer_run :: "(rat \<Rightarrow> rat) \<Rightarrow> InspectorStore \<Rightarrow> InspectorStore" where
  "impactAnalyzer_run rnd store =
     store \<lparr> impactNodes :=
       sort_key (\<lambda>n. - impactScore n)
         (impactNodes store @ List.map_filter (scoreFile rnd store) (files store)) \<rparr>"

text \<open>The formula of the specification, in the platform's arithmetic.\<close>

definition spec_impactScore :: "(rat \<Rightarrow> rat) \<Rightarrow> nat \<Rightarrow> nat \<Rightarrow> nat \<Rightarrow> bool \<Rightarrow> nat \<Rightarrow> int" where
  "spec_impactScore rnd fi fc cc ht cx =
     js_round (rnd (rnd (rnd (rnd (rnd (min (rnd (of_nat fi / 30)) 1 * 35)
                                   + rnd (min (rnd (of_nat fc / 5)) 1 * 25))
                              + rnd (min (rnd (of_nat cc / 100)) 1 * 20))
                         + (if ht then 0 else 10))
                    + rnd (min (rnd (of_nat cx / 50)) 1 * 10)))"

text \<open>The weighted sum of the specification, in exact arithmetic.\<close>

definition spec_weightedSum :: "nat \<Rightarrow> nat \<Rightarrow> nat \<Rightarrow> bool \<Rightarrow> nat \<Rightarrow> rat" where
  "spec_weightedSum fanIn' featureMembershipCount commitCount' hasTests' cyclomaticComplexity' =
     min (of_nat fanIn' / 30) 1 * 35
     + min (of_nat featureMembershipCount / 5) 1 * 25
     + min (of_nat commitCount' / 100) 1 * 20
     + (if hasTests' then 0 else 10)
     + min (of_nat cyclomaticComplexity' / 50) 1 * 10"

section \<open>Duplication analyzer (duplication-analyzer.ts)\<close>

definition MIN_CHUNK_SIZE :: nat where "MIN_CHUNK_SIZE = 6"

definition MAX_CHUNK_SIZE :: nat where "MAX_CHUNK_SIZE = 30"

definition MAX_DUPLICATES :: nat where "MAX_DUPLICATES = 200"

text \<open>The values of \<open>chunkSize\<close> and of \<open>start\<close> that the two \<open>for\<close> loops run through
  for a file of \<open>n\<close> lines.\<close>

definition chunkSizes :: "nat \<Rightarrow> nat list" where
  "chunkSizes n =
     filter (\<lambda>chunkSize. chunkSize \<le> min MAX_CHUNK_SIZE n)
       (map (\<lambda>k. MIN_CHUNK_SIZE + 4 * k) [0..<7])"

definition chunkStarts :: "nat \<Rightarrow> nat \<Rightarrow> nat list" where
  "chunkStarts n chunkSize = filter (\<lambda>start. start mod 3 = 0) [0..<n - chunkSize + 1]"

definition normalizeChunk :: "string list \<Rightarrow> string" where
  "normalizeChunk ls =
     joinWith [CHR 0x0A]
       (filter (\<lambda>l. l \<noteq> [] \<and> \<not> startsWith l ''//'' \<and> \<not> startsWith l ''*''
                      \<and> \<not> startsWith l ''import'')
          (map trim ls))"

text \<open>The body of the inner loop: one window of one file.\<close>

definition scanWindow ::
  "Externals \<Rightarrow> string \<Rightarrow> string list \<Rightarrow> nat \<Rightarrow> nat \<Rightarrow> (string \<times> HashEntry list) list
     \<Rightarrow> (string \<times> HashEntry list) list" where
  "scanWindow ext rel ls chunkSize start hashIndex =
     (let chunk = normalizeChunk (take chunkSize (drop start ls)) in
      if length chunk < 100 then hashIndex
      else
        let h = take 16 (sha256hex ext chunk);
            hashIndex' = (if map_has hashIndex h then hashIndex else AList.update h [] hashIndex);
            entries = (case map_of hashIndex' h of None \<Rightarrow> [] | Some es \<Rightarrow> es)
        in if list_ex (\<lambda>e. entry_file e = rel \<and>
                            \<bar>int (lineStart e) - int start\<bar> < int chunkSize) entries
           then hashIndex'
           else AList.update h
                  (entries @ [\<lparr> entry_file = rel, lineStart = start + 1,
                                entry_snippet = joinWith [CHR 0x0A]
                                  (take (min 3 chunkSize) (drop start ls)) \<rparr>])
                  hashIndex')"

definition scanFile ::
  "Externals \<Rightarrow> string \<times> FileNode \<Rightarrow> (string \<times> HashEntry list) list
     \<Rightarrow> (string \<times> HashEntry list) list" where
  "scanFile ext entry hashIndex =
     (let rel = fst entry; fileNode = snd entry in
      if language fileNode = json \<or> language fileNode = css then hashIndex
      else if loc fileNode < MIN_CHUNK_SIZE then hashIndex
      else
        let codeContent = codeContentOf ext fileNode in
        if codeContent = [] then hashIndex
        else
          let ls = split (CHR 0x0A) codeContent in
          fold (\<lambda>chunkSize idx. fold (scanWindow ext rel ls chunkSize)
                                   (chunkStarts (length ls) chunkSize) idx)
            (chunkSizes (length ls)) hashIndex)"

definition buildHashIndex :: "Externals \<Rightarrow> (string \<times> FileNode) list \<Rightarrow> (string \<times> HashEntry list) list" where
  "buildHashIndex ext fls = fold (scanFile ext) fls []"

text \<open>\<open>fileGroups\<close>: the entries of one hash by file.  A group is created by its first
  push, so it is kept as its first entry and the later ones; \<open>fileGroups.get(f)![0]\<close> is
  the first component.\<close>

definition groupStep ::
  "HashEntry \<Rightarrow> (string \<times> HashEntry \<times> HashEntry list) list
     \<Rightarrow> (string \<times> HashEntry \<times> HashEntry list) list" where
  "groupStep e groups =
     (case map_of groups (entry_file e) of
        None \<Rightarrow> AList.update (entry_file e) (e, []) groups
      | Some g \<Rightarrow> AList.update (entry_file e) (fst g, snd g @ [e]) groups)"

definition fileGroupsOf :: "HashEntry list \<Rightarrow> (string \<times> HashEntry \<times> HashEntry list) list" where
  "fileGroupsOf entries = fold groupStep entries []"

definition mkMatch :: "string \<Rightarrow> HashEntry \<Rightarrow> HashEntry \<Rightarrow> DuplicationMatch" where
  "mkMatch h entryA entryB =
     \<lparr> fileA = entry_file entryA, fileB = entry_file entryB,
       lineStartA = lineStart entryA, lineStartB = lineStart entryB,
       lineCount = MIN_CHUNK_SIZE, hash = h, snippet = entry_snippet entryA \<rparr>"

text \<open>The loop over \<open>j\<close> for one \<open>i\<close>, the loop over \<open>i\<close>, and the loop over the hash
  index; each is left by \<open>break\<close> once \<open>matches\<close> has \<open>MAX_DUPLICATES\<close> elements.\<close>

fun pairLoopJ :: "string \<Rightarrow> HashEntry \<Rightarrow> HashEntry list \<Rightarrow> DuplicationMatch list \<Rightarrow> DuplicationMatch list" where
  "pairLoopJ h entryA [] matches = matches"
| "pairLoopJ h entryA (entryB # later) matches =
     (let matches' = matches @ [mkMatch h entryA entryB] in
      if length matches' \<ge> MAX_DUPLICATES then matches' else pairLoopJ h entryA later matches')"

fun pairLoopI :: "string \<Rightarrow> HashEntry list \<Rightarrow> DuplicationMatch list \<Rightarrow> DuplicationMatch list" where
  "pairLoopI h [] matches = matches"
| "pairLoopI h (entryA # later) matches =
     (let matches' = pairLoopJ h entryA later matches in
      if length matches' \<ge> MAX_DUPLICATES then matches' else pairLoopI h later matches')"

fun hashLoop :: "(string \<times> HashEntry list) list \<Rightarrow> DuplicationMatch list \<Rightarrow> DuplicationMatch list" where
  "hashLoop [] matches = matches"
| "hashLoop (item # rest) matches =
     (if length (snd item) < 2 then hashLoop rest matches
      else
        let fileGroups = fileGroupsOf (snd item) in
        if length fileGroups < 2 then hashLoop rest matches
        else
          let matches' = pairLoopI (fst item) (map (\<lambda>g. fst (snd g)) fileGroups) matches in
          if length matches' \<ge> MAX_DUPLICATES then matches' else hashLoop rest matches')"

text \<open>\<open>[a, b].sort()\<close> compares the strings by their code units.\<close>

fun str_less :: "string \<Rightarrow> string \<Rightarrow> bool" where
  "str_less [] [] = False"
| "str_less [] (d # ds) = True"
| "str_less (c # cs) [] = False"
| "str_less (c # cs) (d # ds) =
     (if c = d then str_less cs ds else (of_char c :: nat) < of_char d)"

definition pairKey :: "DuplicationMatch \<Rightarrow> string" where
  "pairKey m =
     joinWith ''|'' (if str_less (fileB m) (fileA m) then [fileB m, fileA m] else [fileA m, fileB m])"

text \<open>The final \<open>filter\<close> with the set \<open>seen\<close>.\<close>

fun dedupe :: "string list \<Rightarrow> DuplicationMatch list \<Rightarrow> DuplicationMatch list" where
  "dedupe seen [] = []"
| "dedupe seen (m # ms) =
     (if pairKey m \<in> set seen then dedupe seen ms else m # dedupe (pairKey m # seen) ms)"

definition duplicationAnalyzer_run :: "Externals \<Rightarrow> InspectorStore \<Rightarrow> InspectorStore" where
  "duplicationAnalyzer_run ext store =
     store \<lparr> duplications := dedupe [] (hashLoop (buildHashIndex ext (files store)) []) \<rparr>"

section \<open>Example inputs\<close>

definition exNode :: "string \<Rightarrow> string \<Rightarrow> Language \<Rightarrow> nat \<Rightarrow> string \<times> FileNode" where
  "exNode rel ext lang n =
     (rel, \<lparr> path = ''/repo/'' @ rel, relativePath = rel, extension = ext, loc = n,
             language = lang, package = ''root'' \<rparr>)"

definition exEdge :: "string \<Rightarrow> string \<Rightarrow> ImportEdge" where
  "exEdge s t = \<lparr> source = s, target = t, specifiers = [], isDefault = True, isDynamic = False \<rparr>"

definition exFeature :: "string \<Rightarrow> string list \<Rightarrow> Feature" where
  "exFeature i fs =
     \<lparr> feature_id = i, feature_files = fs, entryPoints = [], confidence = 45 / 100,
       signals = [mkSignal folder (35 / 100) (''File path contains feature folder: '' @ i)],
       isCrossCutting = False \<rparr>"

text \<open>The store that \<open>createStore\<close> returns, with a file inventory, an import graph
  and a configuration.\<close>

definition exStore ::
  "ProjectConfig option \<Rightarrow> (string \<times> FileNode) list \<Rightarrow> ImportEdge list \<Rightarrow> InspectorStore" where
  "exStore cfg fls edges =
     \<lparr> skipGit = True, config = cfg, files = fls, importGraph = edges, symbols = [],
       features = [], fileMetrics = [], featureScores = [], duplications = [],
       impactNodes = [], gitChurns = [] \<rparr>"

text \<open>Two source files, a test beside the first and a data file; \<open>main.ts\<close> imports
  \<open>util.ts\<close> twice.\<close>

definition impactExample :: InspectorStore where
  "impactExample =
     (exStore None
        [exNode ''src/core/util.ts'' ''.ts'' typescript 40,
         exNode ''src/core/util.test.ts'' ''.ts'' typescript 40,
         exNode ''src/app/main.ts'' ''.ts'' typescript 40,
         exNode ''src/app/data.json'' ''.json'' json 40]
        [exEdge ''src/app/main.ts'' ''src/core/util.ts'',
         exEdge ''src/app/main.ts'' ''src/core/util.ts''])
     \<lparr> features := [exFeature ''core'' [''src/core/util.ts'', ''src/core/util.test.ts''],
                     exFeature ''app'' [''src/app/main.ts'', ''src/app/data.json'']] \<rparr>"

text \<open>External collaborators for the examples: \<open>content\<close> gives the text of a file by
  its path; the digest is a stand-in that returns its argument.\<close>

definition exExternals :: "(string \<Rightarrow> string) \<Rightarrow> Externals" where
  "exExternals content =
     \<lparr> readFileSafe = content, extractVueScriptContent = (\<lambda>c. c),
       calculateCyclomaticComplexity = (\<lambda>c. 1), calculateCognitiveComplexity = (\<lambda>c. 0),
       countFunctions = (\<lambda>c. (0, 0)), countProps = (\<lambda>c. 0),
       sha256hex = (\<lambda>c. c) \<rparr>"

text \<open>Two files of one feature; \<open>a.ts\<close> imports \<open>b.ts\<close> twice.\<close>

definition parallelExample :: InspectorStore where
  "parallelExample =
     (exStore None
        [exNode ''src/cart/a.ts'' ''.ts'' typescript 40,
         exNode ''src/cart/b.ts'' ''.ts'' typescript 40]
        [exEdge ''src/cart/a.ts'' ''src/cart/b.ts'',
         exEdge ''src/cart/a.ts'' ''src/cart/b.ts''])
     \<lparr> features := [exFeature ''cart'' [''src/cart/a.ts'', ''src/cart/b.ts'']] \<rparr>"

text \<open>Three files of six lines each: two hold the same block, the third another one.
  Each block has more than 100 characters once normalized.\<close>

definition dupFile :: "string list \<Rightarrow> string" where
  "dupFile ls = joinWith [CHR 0x0A] ls"

definition dupBlock :: "string list" where
  "dupBlock =
     [''const total = items.reduce(sum, 0);'',
      ''const taxed = total * (1 + rate);'',
      ''const rounded = Math.round(taxed);'',
      ''const label = format(rounded);'',
      ''render(label, target);'',
      ''log(total, taxed, rounded);'']"

definition otherBlock :: "string list" where
  "otherBlock =
     [''export function open(path) {'',
      ''  const handle = acquire(path);'',
      ''  register(handle, registry);'',
      ''  notify(listeners, handle);'',
      ''  return wrap(handle, options);'',
      ''}'']"

definition dupContent :: "string \<Rightarrow> string" where
  "dupContent p =
     (if p = ''/repo/src/cart/total.ts'' \<or> p = ''/repo/src/order/sum.ts'' then dupFile dupBlock
      else if p = ''/repo/src/io/open.ts'' then dupFile otherBlock
      else [])"

definition dupExample :: InspectorStore where
  "dupExample =
     exStore None
       [exNode ''src/cart/total.ts'' ''.ts'' typescript 6,
        exNode ''src/order/sum.ts'' ''.ts'' typescript 6,
        exNode ''src/io/open.ts'' ''.ts'' typescript 6]
       []"

text \<open>A feature of three files with metrics: two sources without a sibling test and one
  test file that is the sibling of neither.\<close>

definition coverageExample :: InspectorStore where
  "coverageExample =
     (exStore None
        [exNode ''src/cart/price.ts'' ''.ts'' typescript 40,
         exNode ''src/cart/total.ts'' ''.ts'' typescript 40,
         exNode ''src/cart/cart.test.ts'' ''.ts'' typescript 40]
        [])
     \<lparr> features := [exFeature ''cart''
                       [''src/cart/price.ts'', ''src/cart/total.ts'', ''src/cart/cart.test.ts'']] \<rparr>"

text \<open>An inventory for import resolution.\<close>

definition resolveExample :: InspectorStore where
  "resolveExample =
     exStore None
       [exNode ''src/app/main.ts'' ''.ts'' typescript 40,
        exNode ''src/app/helper.ts'' ''.ts'' typescript 40,
        exNode ''src/utils/format.ts'' ''.ts'' typescript 40,
        exNode ''src/widgets/index.vue'' ''.vue'' vue 40,
        exNode ''src/tools/index.mjs'' ''.mjs'' javascript 40]
       []"

text \<open>A SvelteKit project: the route directory \<open>src/routes/\<close> is a convention path.\<close>

definition routeConfig :: ProjectConfig where
  "routeConfig =
     \<lparr> packages = [\<lparr> dir = ''.'', framework = ''sveltekit'', pkg_name = ''shop'', pkg_aliases = [] \<rparr>],
       aliases = [],
       conventionPaths = [''src/routes/'', ''src/lib/''] \<rparr>"

definition routeExample :: InspectorStore where
  "routeExample =
     exStore (Some routeConfig)
       [exNode ''src/routes/checkout/+page.svelte'' ''.svelte'' vue 40,
        exNode ''src/lib/cart.ts'' ''.ts'' typescript 40]
       []"

text \<open>Three files of which only the first is in a feature folder, and a chain of two
  imports from it.\<close>

definition chainFiles :: "(string \<times> FileNode) list" where
  "chainFiles =
     [exNode ''src/cart/a.ts'' ''.ts'' typescript 40,
      exNode ''lib/b.ts'' ''.ts'' typescript 40,
      exNode ''lib/c.ts'' ''.ts'' typescript 40]"

definition chainEdges :: "ImportEdge list" where
  "chainEdges = [exEdge ''src/cart/a.ts'' ''lib/b.ts'', exEdge ''lib/b.ts'' ''lib/c.ts'']"

text \<open>A churn entry and a metrics entry.\<close>

definition exChurn :: "string \<Rightarrow> nat \<Rightarrow> string \<times> GitChurn" where
  "exChurn rel n =
     (rel, \<lparr> churn_file = rel, commitCount = n, authorCount = 1,
             lastModified = ''2024-01-01'', coChangedWith = [] \<rparr>)"

definition exMetrics :: "string \<Rightarrow> nat \<Rightarrow> string \<times> FileMetrics" where
  "exMetrics rel cx =
     (rel, \<lparr> m_file = rel, m_loc = 40, cyclomaticComplexity = cx, cognitiveComplexity = 0,
             importCount = 0, exportCount = 0, functionCount = 0, maxFunctionLength = 0,
             propCount = 0, m_fanIn = 0, m_fanOut = 0 \<rparr>)"

text \<open>A file with two importers, one of which imports it twice, two features, 60 commits,
  a complexity of 30 and no test.\<close>

definition scoreExample :: InspectorStore where
  "scoreExample =
     (exStore None
        [exNode ''src/core/engine.ts'' ''.ts'' typescript 40,
         exNode ''src/app/a.ts'' ''.ts'' typescript 40,
         exNode ''src/app/b.ts'' ''.ts'' typescript 40]
        [exEdge ''src/app/a.ts'' ''src/core/engine.ts'',
         exEdge ''src/app/a.ts'' ''src/core/engine.ts'',
         exEdge ''src/app/b.ts'' ''src/core/engine.ts''])
     \<lparr> features := [exFeature ''core'' [''src/core/engine.ts''],
                     exFeature ''shared'' [''src/core/engine.ts'']],
       fileMetrics := [exMetrics ''src/core/engine.ts'' 30],
       gitChurns := [exChurn ''src/core/engine.ts'' 60] \<rparr>"

text \<open>Two files with three importers each.  \<open>util.ts\<close> has a test, 8 commits and a
  complexity of 47: its weighted sum is 14.5.  \<open>core.ts\<close> has no test, 59 commits and a
  complexity of 21: its weighted sum is 29.5.\<close>

definition tieExample :: InspectorStore where
  "tieExample =
     (exStore None
        [exNode ''src/lib/util.ts'' ''.ts'' typescript 40,
         exNode ''src/lib/util.test.ts'' ''.ts'' typescript 40,
         exNode ''src/lib/core.ts'' ''.ts'' typescript 40,
         exNode ''src/app/a.ts'' ''.ts'' typescript 40,
         exNode ''src/app/b.ts'' ''.ts'' typescript 40,
         exNode ''src/app/c.ts'' ''.ts'' typescript 40]
        [exEdge ''src/app/a.ts'' ''src/lib/util.ts'',
         exEdge ''src/app/b.ts'' ''src/lib/util.ts'',
         exEdge ''src/app/c.ts'' ''src/lib/util.ts'',
         exEdge ''src/app/a.ts'' ''src/lib/core.ts'',
         exEdge ''src/app/b.ts'' ''src/lib/core.ts'',
         exEdge ''src/app/c.ts'' ''src/lib/core.ts''])
     \<lparr> fileMetrics := [exMetrics ''src/lib/util.ts'' 47, exMetrics ''src/lib/core.ts'' 21],
       gitChurns := [exChurn ''src/lib/util.ts'' 8, exChurn ''src/lib/core.ts'' 59] \<rparr>"

text \<open>Four files of which only the first is in a feature folder; the edge from the
  assigned file stands last.\<close>

definition detourFiles :: "(string \<times> FileNode) list" where
  "detourFiles =
     [exNode ''src/cart/a.ts'' ''.ts'' typescript 40,
      exNode ''lib/x.ts'' ''.ts'' typescript 40,
      exNode ''lib/b.ts'' ''.ts'' typescript 40,
      exNode ''lib/c.ts'' ''.ts'' typescript 40]"

definition detourEdges :: "ImportEdge list" where
  "detourEdges =
     [exEdge ''lib/x.ts'' ''lib/b.ts'', exEdge ''lib/b.ts'' ''lib/c.ts'',
      exEdge ''src/cart/a.ts'' ''lib/b.ts'']"

section \<open>Notions used in the proofs\<close>

text \<open>The \<open>Set\<close> kept for a target in the fan-in map of the impact analyzer, and the
  property that every kept list is free of repetitions.\<close>

definition keptSet :: "(string \<times> string list) list \<Rightarrow> string \<Rightarrow> string set" where
  "keptSet m t = (case map_of m t of None \<Rightarrow> {} | Some l \<Rightarrow> set l)"

definition keptDistinct :: "(string \<times> string list) list \<Rightarrow> bool" where
  "keptDistinct m = (\<forall>t l. map_of m t = Some l \<longrightarrow> distinct l)"

text \<open>An entry of \<open>store.fileMetrics\<close> whose fan-in and fan-out are the numbers of
  edges into and out of its file.\<close>

definition countsEdges :: "ImportEdge list \<Rightarrow> string \<times> FileMetrics \<Rightarrow> bool" where
  "countsEdges es entry =
     (m_fanIn (snd entry) = length (filter (\<lambda>e. target e = fst entry) es) \<and>
      m_fanOut (snd entry) = length (filter (\<lambda>e. source e = fst entry) es))"

text \<open>A match made from two representatives of a list: the first stands before the
  second.\<close>

definition pairOf :: "string \<Rightarrow> HashEntry list \<Rightarrow> DuplicationMatch \<Rightarrow> bool" where
  "pairOf h reps m =
     (\<exists>pre a mid b post. reps = pre @ a # mid @ b # post \<and> m = mkMatch h a b)"

text \<open>The groups of \<open>fileGroupsOf\<close>: the keys are distinct, and the first entry of a
  group is an entry of the key's file taken from the list.\<close>

definition groupsOk :: "HashEntry list \<Rightarrow> (string \<times> HashEntry \<times> HashEntry list) list \<Rightarrow> bool" where
  "groupsOk es groups =
     (distinct (map fst groups) \<and>
      list_all (\<lambda>g. entry_file (fst (snd g)) = fst g \<and> fst (snd g) \<in> set es) groups)"

text \<open>Where a match of the hash loop comes from.\<close>

definition matchOf :: "(string \<times> HashEntry list) list \<Rightarrow> DuplicationMatch \<Rightarrow> bool" where
  "matchOf idx m =
     (\<exists>item\<in>set idx. \<exists>a\<in>set (snd item). \<exists>b\<in>set (snd item).
        entry_file a \<noteq> entry_file b \<and> m = mkMatch (fst item) a b)"

text \<open>The state of \<open>run\<close> after the passes of signals 1 and 2.\<close>

definition afterSignal2 :: "ProjectConfig option \<Rightarrow> (string \<times> FileNode) list \<Rightarrow> GrouperState" where
  "afterSignal2 cfg fls = signal2 cfg (map fst fls) (signal1 cfg (map fst fls) emptyState)"

text \<open>The assignment index is consistent with the feature map: an assigned id is not
  empty and is a key of the feature map.\<close>

definition wfState :: "GrouperState \<Rightarrow> bool" where
  "wfState st =
     (\<forall>k v. map_of (fileToFeature st) k = Some v \<longrightarrow> v \<noteq> [] \<and> map_of (featureMap st) v \<noteq> None)"

text \<open>The members of the cluster of an id; none when the id is not a key.\<close>

definition membersOf :: "(string \<times> Feature) list \<Rightarrow> string \<Rightarrow> string set" where
  "membersOf fm fid = (case map_of fm fid of None \<Rightarrow> {} | Some fe \<Rightarrow> set (feature_files fe))"

text \<open>Every assigned file is a member of the cluster that its id names.\<close>

definition membersOk :: "GrouperState \<Rightarrow> bool" where
  "membersOk st =
     (\<forall>k v. map_of (fileToFeature st) k = Some v \<longrightarrow> k \<in> membersOf (featureMap st) v)"

text \<open>Every member of a cluster is an assigned file.\<close>

definition membersAssigned :: "GrouperState \<Rightarrow> bool" where
  "membersAssigned st =
     (\<forall>fid k. k \<in> membersOf (featureMap st) fid \<longrightarrow> map_of (fileToFeature st) k \<noteq> None)"

text \<open>What one step of a pass does to the two maps: nothing, or it replaces the entry of
  one cluster by one with the same members, or it assigns a file to a cluster and makes
  it a member of that cluster.\<close>

definition grows :: "GrouperState \<Rightarrow> GrouperState \<Rightarrow> bool" where
  "grows st st' =
     (st' = st \<or>
      (\<exists>fid fe'.
         (map_of (featureMap st) fid \<noteq> None \<and>
          set (feature_files fe') = membersOf (featureMap st) fid \<and>
          st' = st \<lparr> featureMap := AList.update fid fe' (featureMap st) \<rparr>) \<or>
         (\<exists>k. fid \<noteq> [] \<and>
            set (feature_files fe') = insert k (membersOf (featureMap st) fid) \<and>
            st' = st \<lparr> featureMap := AList.update fid fe' (featureMap st),
                        fileToFeature := AList.update k fid (fileToFeature st) \<rparr>)))"

text \<open>The invariant of the passes.\<close>

definition consistent :: "GrouperState \<Rightarrow> bool" where
  "consistent st = (wfState st \<and> membersOk st \<and> membersAssigned st)"

text \<open>A chain of imports: every edge starts at the file where the edge before it ends.\<close>

fun linked :: "ImportEdge list \<Rightarrow> bool" where
  "linked (e1 # e2 # es) = (target e1 = source e2 \<and> linked (e2 # es))"
| "linked es = True"

text \<open>A chain of imports that starts at a file with a cluster id in the index
  \<open>assigned\<close> and ends at the file \<open>f\<close>.\<close>

definition importChain :: "(string \<times> string) list \<Rightarrow> ImportEdge list \<Rightarrow> string \<Rightarrow> bool" where
  "importChain assigned es f =
     (es \<noteq> [] \<and> map_has assigned (source (hd es)) \<and> linked es \<and> target (last es) = f)"

text \<open>The files that one edge and then a list of edges reach from a set of files, when an
  edge reaches its target as soon as its source is reached.\<close>

definition reachStep :: "ImportEdge \<Rightarrow> string set \<Rightarrow> string set" where
  "reachStep e A = (if source e \<in> A then insert (target e) A else A)"

text \<open>A list of edges that leads from the file \<open>a\<close> to the file \<open>f\<close>.\<close>

fun walks :: "ImportEdge list \<Rightarrow> string \<Rightarrow> string \<Rightarrow> bool" where
  "walks [] a f = (a = f)"
| "walks (e # es) a f = (source e = a \<and> walks es (target e) f)"

section \<open>Properties\<close>

subsection \<open>Double-precision rounding\<close>

lemma bitLength_0: "bitLength 0 = 0"
  by (simp add: bitLength.simps)

lemma bitLength_pos: "0 < n \<Longrightarrow> bitLength n = Suc (bitLength (n div 2))"
  by (simp add: bitLength.simps[of n])

lemma bitLength_upper: "n < 2 ^ bitLength n"
proof (induction n rule: bitLength.induct)
  case (1 n)
  show ?case
  proof (cases "n = 0")
    case True
    then show ?thesis by (simp add: bitLength_0)
  next
    case False
    then have "n div 2 < 2 ^ bitLength (n div 2)" using 1 by simp
    then have "n < 2 * 2 ^ bitLength (n div 2)" by linarith
    then show ?thesis using False by (simp add: bitLength_pos)
  qed
qed

lemma bitLength_lower: "0 < n \<Longrightarrow> 2 ^ (bitLength n - 1) \<le> n"
proof (induction n rule: bitLength.induct)
  case (1 n)
  then have n0: "n \<noteq> 0" by simp
  show ?case
  proof (cases "n div 2 = 0")
    case True
    then have "bitLength n = 1" using n0 by (simp add: bitLength_pos bitLength_0)
    then show ?thesis using n0 by simp
  next
    case False
    then have ih: "2 ^ (bitLength (n div 2) - 1) \<le> n div 2" using 1 n0 by simp
    have pos: "0 < bitLength (n div 2)" using False by (simp add: bitLength_pos)
    have "bitLength n = Suc (bitLength (n div 2))" using n0 by (simp add: bitLength_pos)
    then have "(2::nat) ^ (bitLength n - 1) = 2 * 2 ^ (bitLength (n div 2) - 1)"
      using pos by (cases "bitLength (n div 2)") simp_all
    also have "\<dots> \<le> 2 * (n div 2)" using ih by simp
    also have "\<dots> \<le> n" by simp
    finally show ?thesis .
  qed
qed

lemma bitLength_bounds_rat:
  assumes "0 < n"
  shows "(2::rat) ^ (bitLength n - 1) \<le> of_nat n" and "(of_nat n :: rat) + 1 \<le> 2 ^ bitLength n"
proof -
  have "(of_nat (2 ^ (bitLength n - 1)) :: rat) \<le> of_nat n"
    using bitLength_lower[OF assms] by (simp only: of_nat_le_iff)
  then show "(2::rat) ^ (bitLength n - 1) \<le> of_nat n" by simp
  have "Suc n \<le> 2 ^ bitLength n" using bitLength_upper[of n] by simp
  then have "(of_nat (Suc n) :: rat) \<le> of_nat (2 ^ bitLength n)" by (simp only: of_nat_le_iff)
  then show "(of_nat n :: rat) + 1 \<le> 2 ^ bitLength n" by simp
qed

text \<open>The exponent of a positive number is the exponent of the power of two at or below
  it.\<close>

lemma exponentOf_bounds:
  assumes "0 < x"
  shows "2 powi (exponentOf x) \<le> x" and "x < 2 powi (exponentOf x + 1)"
proof -
  have both: "2 powi (exponentOf x) \<le> x \<and> x < 2 powi (exponentOf x + 1)"
  proof (cases "1 \<le> x")
    case True
    define n where "n = nat \<lfloor>x\<rfloor>"
    have f1: "1 \<le> \<lfloor>x\<rfloor>" using True by (simp add: le_floor_iff)
    then have n1: "0 < n" by (simp add: n_def)
    have cast: "(of_nat n :: rat) = of_int \<lfloor>x\<rfloor>" using f1 by (simp add: n_def)
    have lo: "of_nat n \<le> x" unfolding cast by (rule of_int_floor_le)
    have hi: "x < of_nat n + 1" unfolding cast by linarith
    have bl: "0 < bitLength n" using n1 by (simp add: bitLength_pos)
    have e1: "exponentOf x = int (bitLength n - 1)"
      using True bl by (simp add: exponentOf_def n_def)
    have e2: "exponentOf x + 1 = int (bitLength n)"
      using True bl by (simp add: exponentOf_def n_def)
    have "2 powi (exponentOf x) \<le> x"
      unfolding e1 power_int_of_nat using bitLength_bounds_rat(1)[OF n1] lo by linarith
    moreover have "x < 2 powi (exponentOf x + 1)"
      unfolding e2 power_int_of_nat using bitLength_bounds_rat(2)[OF n1] hi by linarith
    ultimately show ?thesis by simp
  next
    case False
    then have x1: "x < 1" by simp
    define y where "y = 1 / x"
    have y1: "1 < y" using assms x1 by (simp add: y_def)
    define n where "n = nat (\<lceil>y\<rceil> - 1)"
    have c2: "2 \<le> \<lceil>y\<rceil>" using y1 by (simp add: le_ceiling_iff)
    then have n1: "0 < n" by (simp add: n_def)
    have cast: "(of_nat n :: rat) = of_int \<lceil>y\<rceil> - 1" using c2 by (simp add: n_def)
    have lo: "of_nat n < y" unfolding cast using ceiling_correct[of y] by linarith
    have hi: "y \<le> of_nat n + 1" unfolding cast using ceiling_correct[of y] by linarith
    have bl: "0 < bitLength n" using n1 by (simp add: bitLength_pos)
    have e: "exponentOf x = - int (bitLength n)"
      using False by (simp add: exponentOf_def n_def y_def)
    have e1: "exponentOf x + 1 = - int (bitLength n - 1)"
      using bl e by simp
    have xy: "1 / y = x" using assms by (simp add: y_def)
    have p1: "y \<le> 2 ^ bitLength n" using bitLength_bounds_rat(2)[OF n1] hi by linarith
    have p2: "(2::rat) ^ (bitLength n - 1) < y" using bitLength_bounds_rat(1)[OF n1] lo by linarith
    have ypos: "0 < y" using y1 by simp
    have pw1: "(2::rat) powi (exponentOf x) = 1 / 2 ^ bitLength n"
      unfolding e by (simp only: power_int_minus_divide power_int_of_nat)
    have pw2: "(2::rat) powi (exponentOf x + 1) = 1 / 2 ^ (bitLength n - 1)"
      unfolding e1 by (simp only: power_int_minus_divide power_int_of_nat)
    have "1 / 2 ^ bitLength n \<le> 1 / y"
      using p1 ypos by (simp add: frac_le)
    then have "2 powi (exponentOf x) \<le> x"
      by (simp only: pw1 xy)
    moreover have "1 / y < 1 / 2 ^ (bitLength n - 1)"
      using p2 by (simp add: frac_less2)
    then have "x < 2 powi (exponentOf x + 1)"
      by (simp only: pw2 xy)
    ultimately show ?thesis by simp
  qed
  show "2 powi (exponentOf x) \<le> x" using both by simp
  show "x < 2 powi (exponentOf x + 1)" using both by simp
qed

lemma exponentOf_mono:
  assumes "0 < x" "x \<le> y"
  shows "exponentOf x \<le> exponentOf y"
proof -
  have "(2::rat) powi (exponentOf x) < 2 powi (exponentOf y + 1)"
    using exponentOf_bounds(1)[OF assms(1)] exponentOf_bounds(2)[of y] assms by linarith
  then have "exponentOf x < exponentOf y + 1"
    by (metis linorder_not_less one_le_numeral power_int_increasing)
  then show ?thesis by simp
qed

lemma exponentOf_le:
  assumes "0 < x" "x < 2 powi k"
  shows "exponentOf x < k"
proof -
  have "(2::rat) powi (exponentOf x) < 2 powi k"
    using exponentOf_bounds(1)[OF assms(1)] assms(2) by linarith
  then show ?thesis
    by (metis linorder_not_less one_le_numeral power_int_increasing)
qed

text \<open>Rounding to the nearest integer.\<close>

lemma roundHalfEven_cases:
  "roundHalfEven y = \<lfloor>y\<rfloor> \<and> y - of_int \<lfloor>y\<rfloor> \<le> 1 / 2 \<or>
   roundHalfEven y = \<lfloor>y\<rfloor> + 1 \<and> 1 / 2 \<le> y - of_int \<lfloor>y\<rfloor>"
  by (auto simp add: roundHalfEven_def Let_def)

lemma roundHalfEven_close: "\<bar>of_int (roundHalfEven y) - y\<bar> \<le> 1 / 2"
proof -
  have "of_int \<lfloor>y\<rfloor> \<le> y" "y < of_int \<lfloor>y\<rfloor> + 1" by linarith+
  then show ?thesis using roundHalfEven_cases[of y] by (auto simp add: abs_le_iff)
qed

lemma roundHalfEven_of_int: "roundHalfEven (of_int k) = k"
  by (simp add: roundHalfEven_def Let_def)

lemma roundHalfEven_mono:
  assumes "y \<le> z"
  shows "roundHalfEven y \<le> roundHalfEven z"
proof (cases "\<lfloor>y\<rfloor> = \<lfloor>z\<rfloor>")
  case True
  have "y - of_int \<lfloor>y\<rfloor> \<le> z - of_int \<lfloor>z\<rfloor>" using assms True by simp
  then show ?thesis
    unfolding roundHalfEven_def Let_def True by (auto simp add: True)
next
  case False
  have "\<lfloor>y\<rfloor> \<le> \<lfloor>z\<rfloor>" using assms by (rule floor_mono)
  then have "\<lfloor>y\<rfloor> + 1 \<le> \<lfloor>z\<rfloor>" using False by simp
  moreover have "roundHalfEven y \<le> \<lfloor>y\<rfloor> + 1" using roundHalfEven_cases[of y] by auto
  moreover have "\<lfloor>z\<rfloor> \<le> roundHalfEven z" using roundHalfEven_cases[of z] by auto
  ultimately show ?thesis by linarith
qed

lemma quantum_pos: "0 < quantum x"
  by (simp add: quantum_def zero_less_power_int)

lemma quantum_minus: "quantum (- x) = quantum x"
  by (simp add: quantum_def)

lemma binary64_minus: "binary64 (- x) = - binary64 x"
  by (simp add: binary64_def quantum_minus sgn_minus)

lemma binary64_of_pos:
  "0 < x \<Longrightarrow> binary64 x = of_int (roundHalfEven (x / quantum x)) * quantum x"
  by (simp add: binary64_def)

lemma binary64_nonneg:
  assumes "0 \<le> x"
  shows "0 \<le> binary64 x"
proof (cases "x = 0")
  case True
  then show ?thesis by (simp add: binary64_def)
next
  case False
  then have pos: "0 < x" using assms by simp
  have "0 \<le> x / quantum x" using pos quantum_pos[of x] by simp
  then have "roundHalfEven 0 \<le> roundHalfEven (x / quantum x)" by (rule roundHalfEven_mono)
  then have "0 \<le> roundHalfEven (x / quantum x)"
    using roundHalfEven_of_int[of 0] by simp
  then show ?thesis
    using quantum_pos[of x] by (simp add: binary64_of_pos[OF pos])
qed

text \<open>The clamped exponent of a positive number.\<close>

lemma quantum_of_pos: "0 < x \<Longrightarrow> quantum x = 2 powi (max (exponentOf x) (- 1022) - 52)"
  by (simp add: quantum_def)

lemma binary64_upper:
  assumes "0 < x" and E: "E = max (exponentOf x) (- 1022)"
  shows "binary64 x \<le> 2 powi (E + 1)"
proof -
  have q: "quantum x = 2 powi (E - 52)" using assms by (simp add: quantum_of_pos)
  have "x < 2 powi (exponentOf x + 1)" using exponentOf_bounds(2)[OF assms(1)] .
  also have "\<dots> \<le> 2 powi (E + 1)" unfolding E by (rule power_int_increasing) simp_all
  finally have x: "x \<le> 2 powi (E + 1)" by simp
  have "(2::rat) powi (E + 1) = 2 powi (53 + (E - 52))"
    by (rule arg_cong[where f = "\<lambda>n. 2 powi n"]) simp
  also have "\<dots> = 2 powi 53 * 2 powi (E - 52)" by (rule power_int_add) simp
  finally have split: "(2::rat) powi (E + 1) = 2 powi 53 * 2 powi (E - 52)" .
  have "x / quantum x \<le> 2 powi 53"
    using x quantum_pos[of x] unfolding q split by (simp add: pos_divide_le_eq)
  also have "(2::rat) powi 53 = of_int (2 ^ 53)" by simp
  finally have "roundHalfEven (x / quantum x) \<le> roundHalfEven (of_int (2 ^ 53))"
    by (rule roundHalfEven_mono)
  then have "roundHalfEven (x / quantum x) \<le> 2 ^ 53" by (simp only: roundHalfEven_of_int)
  then have "(of_int (roundHalfEven (x / quantum x)) :: rat) \<le> of_int (2 ^ 53)"
    by (simp only: of_int_le_iff)
  then have "of_int (roundHalfEven (x / quantum x)) * quantum x \<le> of_int (2 ^ 53) * quantum x"
    using quantum_pos[of x] by (simp only: mult_le_cancel_right_pos)
  also have "of_int (2 ^ 53) * quantum x = 2 powi (E + 1)"
    unfolding q split by simp
  finally show ?thesis by (simp only: binary64_of_pos[OF assms(1)])
qed

lemma binary64_lower:
  assumes "0 < x" and E: "- 1022 \<le> exponentOf x"
  shows "2 powi (exponentOf x) \<le> binary64 x"
proof -
  have q: "quantum x = 2 powi (exponentOf x - 52)" using assms by (simp add: quantum_of_pos)
  have x: "2 powi (exponentOf x) \<le> x" using exponentOf_bounds(1)[OF assms(1)] .
  have "(2::rat) powi (exponentOf x) = 2 powi (52 + (exponentOf x - 52))"
    by (rule arg_cong[where f = "\<lambda>n. 2 powi n"]) simp
  also have "\<dots> = 2 powi 52 * 2 powi (exponentOf x - 52)" by (rule power_int_add) simp
  finally have split: "(2::rat) powi (exponentOf x) = 2 powi 52 * 2 powi (exponentOf x - 52)" .
  have "(2::rat) powi 52 \<le> x / quantum x"
    using x quantum_pos[of x] unfolding q split by (simp add: pos_le_divide_eq)
  moreover have "(2::rat) powi 52 = of_int (2 ^ 52)" by simp
  ultimately have "of_int (2 ^ 52) \<le> x / quantum x" by simp
  then have "roundHalfEven (of_int (2 ^ 52)) \<le> roundHalfEven (x / quantum x)"
    by (rule roundHalfEven_mono)
  then have "2 ^ 52 \<le> roundHalfEven (x / quantum x)" by (simp only: roundHalfEven_of_int)
  then have "(of_int (2 ^ 52) :: rat) \<le> of_int (roundHalfEven (x / quantum x))"
    by (simp only: of_int_le_iff)
  then have "of_int (2 ^ 52) * quantum x \<le> of_int (roundHalfEven (x / quantum x)) * quantum x"
    using quantum_pos[of x] by (simp only: mult_le_cancel_right_pos)
  moreover have "of_int (2 ^ 52) * quantum x = 2 powi (exponentOf x)"
    unfolding q split by simp
  ultimately show ?thesis by (simp only: binary64_of_pos[OF assms(1)])
qed

lemma binary64_mono_pos:
  assumes "0 < x" "x \<le> y"
  shows "binary64 x \<le> binary64 y"
proof -
  have ypos: "0 < y" using assms by simp
  define Ex where "Ex = max (exponentOf x) (- 1022)"
  define Ey where "Ey = max (exponentOf y) (- 1022)"
  have le: "Ex \<le> Ey" using exponentOf_mono[OF assms] by (simp add: Ex_def Ey_def)
  show ?thesis
  proof (cases "Ex = Ey")
    case True
    have q: "quantum x = quantum y"
      using True by (simp add: quantum_of_pos assms(1) ypos Ex_def Ey_def)
    have "x / quantum y \<le> y / quantum y"
      using assms(2) quantum_pos[of y] by (simp add: divide_right_mono)
    then have "roundHalfEven (x / quantum y) \<le> roundHalfEven (y / quantum y)"
      by (rule roundHalfEven_mono)
    then have "(of_int (roundHalfEven (x / quantum y)) :: rat) \<le> of_int (roundHalfEven (y / quantum y))"
      by (simp only: of_int_le_iff)
    then have "of_int (roundHalfEven (x / quantum y)) * quantum y
                 \<le> of_int (roundHalfEven (y / quantum y)) * quantum y"
      using quantum_pos[of y] by (simp only: mult_le_cancel_right_pos)
    then show ?thesis by (simp only: binary64_of_pos[OF assms(1)] binary64_of_pos[OF ypos] q)
  next
    case False
    then have lt: "Ex + 1 \<le> Ey" using le by simp
    then have "- 1022 < Ey" by (simp add: Ex_def)
    then have ey: "Ey = exponentOf y" "- 1022 \<le> exponentOf y" by (simp_all add: Ey_def)
    have "binary64 x \<le> 2 powi (Ex + 1)" using binary64_upper[OF assms(1) Ex_def] .
    also have "\<dots> \<le> 2 powi Ey" using lt by (rule power_int_increasing) simp
    also have "\<dots> \<le> binary64 y" unfolding ey(1) by (rule binary64_lower[OF ypos ey(2)])
    finally show ?thesis .
  qed
qed

lemma binary64_zero: "binary64 0 = 0"
  by (simp add: binary64_def)

lemma binary64_mono: "mono binary64"
proof (rule monoI)
  fix x y :: rat
  assume le: "x \<le> y"
  consider "0 < x" | "x = 0" | "x < 0" "0 \<le> y" | "x < 0" "y < 0" by linarith
  then show "binary64 x \<le> binary64 y"
  proof cases
    case 1
    then show ?thesis using le by (rule binary64_mono_pos)
  next
    case 2
    then show ?thesis using le binary64_nonneg[of y] by (simp add: binary64_zero)
  next
    case 3
    have "0 \<le> binary64 (- x)" using 3(1) by (intro binary64_nonneg) simp
    then have "binary64 x \<le> 0" by (simp add: binary64_minus)
    then show ?thesis using binary64_nonneg[OF 3(2)] by linarith
  next
    case 4
    have "binary64 (- y) \<le> binary64 (- x)"
      using 4 le by (intro binary64_mono_pos) simp_all
    then show ?thesis by (simp add: binary64_minus)
  qed
qed

text \<open>The integers below \<open>2\<^sup>5\<^sup>3\<close> are doubles.\<close>

lemma binary64_of_nat:
  assumes "k < 2 ^ 53"
  shows "binary64 (of_nat k) = of_nat k"
proof (cases "k = 0")
  case True
  then show ?thesis by (simp add: binary64_zero)
next
  case False
  define x :: rat where "x = of_nat k"
  have pos: "0 < x" and one: "1 \<le> x" using False by (simp_all add: x_def)
  have "(of_nat k :: rat) < of_nat (2 ^ 53)" using assms by (simp only: of_nat_less_iff)
  then have "x < 2 powi 53" by (simp add: x_def)
  then have hi: "exponentOf x < 53" by (rule exponentOf_le[OF pos])
  have "(2::rat) powi 0 < 2 powi (exponentOf x + 1)"
    using one exponentOf_bounds(2)[OF pos] by simp
  then have lo: "0 \<le> exponentOf x"
    by (metis add.commute add_le_cancel_left linorder_not_less one_le_numeral power_int_increasing zle_add1_eq_le zero_less_one_class.zero_le_one)
  define m where "m = nat (52 - exponentOf x)"
  have q: "quantum x = 1 / 2 ^ m"
  proof -
    have "max (exponentOf x) (- 1022) - 52 = - int m" using lo hi by (simp add: m_def)
    then show ?thesis
      by (simp only: quantum_of_pos[OF pos] power_int_minus_divide power_int_of_nat)
  qed
  have "x / quantum x = x * 2 ^ m" by (simp add: q)
  also have "\<dots> = of_int (int k * 2 ^ m)" by (simp add: x_def)
  finally have "x / quantum x = of_int (int k * 2 ^ m)" .
  then have "roundHalfEven (x / quantum x) = int k * 2 ^ m"
    by (simp only: roundHalfEven_of_int)
  then have "binary64 x = of_int (int k * 2 ^ m) * (1 / 2 ^ m)"
    by (simp only: binary64_of_pos[OF pos] q)
  then show ?thesis by (simp add: x_def)
qed

text \<open>A double is within half a quantum of the number it rounds.\<close>

lemma binary64_close:
  assumes "0 \<le> x" "x \<le> 100"
  shows "\<bar>binary64 x - x\<bar> \<le> 2 powi (- 47)"
proof (cases "x = 0")
  case True
  then show ?thesis by (simp add: binary64_zero zero_less_power_int less_imp_le)
next
  case False
  then have pos: "0 < x" using assms by simp
  define E where "E = max (exponentOf x) (- 1022)"
  have q: "quantum x = 2 powi (E - 52)" by (simp add: quantum_of_pos[OF pos] E_def)
  have "x < 2 powi 7" using assms(2) by simp
  then have "exponentOf x < 7" by (rule exponentOf_le[OF pos])
  then have E6: "E \<le> 6" by (simp add: E_def)
  have "\<bar>binary64 x - x\<bar> = \<bar>of_int (roundHalfEven (x / quantum x)) - x / quantum x\<bar> * quantum x"
  proof -
    have "binary64 x - x = (of_int (roundHalfEven (x / quantum x)) - x / quantum x) * quantum x"
      using quantum_pos[of x] by (simp add: binary64_of_pos[OF pos] algebra_simps)
    then show ?thesis using quantum_pos[of x] by (simp add: abs_mult)
  qed
  also have "\<dots> \<le> 1 / 2 * quantum x"
    using roundHalfEven_close[of "x / quantum x"] quantum_pos[of x]
    by (simp only: mult_le_cancel_right_pos)
  also have "1 / 2 * quantum x = 2 powi (E - 53)"
  proof -
    have "(2::rat) powi (E - 52) = 2 powi ((E - 53) + 1)"
      by (rule arg_cong[where f = "\<lambda>n. 2 powi n"]) simp
    also have "\<dots> = 2 powi (E - 53) * 2 powi 1" by (rule power_int_add) simp
    finally have "(2::rat) powi (E - 52) = 2 powi (E - 53) * 2 powi 1" .
    then show ?thesis by (simp add: q)
  qed
  also have "\<dots> \<le> 2 powi (- 47)" using E6 by (intro power_int_increasing) simp_all
  finally show ?thesis .
qed

subsection \<open>Impact analyzer\<close>

lemma rnd_ok_fix: "rnd_ok rnd \<Longrightarrow> k \<le> 100 \<Longrightarrow> rnd (of_nat k) = of_nat k"
  by (simp add: rnd_ok_def list_all_iff)

lemma rnd_ok_range:
  assumes "rnd_ok rnd" "0 \<le> x" "x \<le> of_nat k" "k \<le> 100"
  shows "0 \<le> rnd x \<and> rnd x \<le> of_nat k"
proof -
  have m: "mono rnd" using assms(1) by (simp add: rnd_ok_def)
  have "rnd 0 = 0" using rnd_ok_fix[OF assms(1), of 0] by simp
  moreover have "rnd (of_nat k) = of_nat k" using rnd_ok_fix[OF assms(1) assms(4)] .
  ultimately show ?thesis using monoD[OF m assms(2)] monoD[OF m assms(3)] by simp
qed

lemma cappedShare_range:
  assumes "rnd_ok rnd" "0 < d" "w = of_nat k" "k \<le> 100"
  shows "0 \<le> cappedShare rnd n d w \<and> cappedShare rnd n d w \<le> of_nat k"
proof -
  have m: "mono rnd" using assms(1) by (simp add: rnd_ok_def)
  have z: "rnd 0 = 0" using rnd_ok_fix[OF assms(1), of 0] by simp
  have "0 \<le> of_nat n / d" using assms(2) by simp
  then have "0 \<le> rnd (of_nat n / d)" using monoD[OF m, of 0 "of_nat n / d"] z by simp
  then have a: "0 \<le> min (rnd (of_nat n / d)) 1" and b: "min (rnd (of_nat n / d)) 1 \<le> 1" by simp_all
  have "0 \<le> min (rnd (of_nat n / d)) 1 * w" using a assms(3) by simp
  moreover have "min (rnd (of_nat n / d)) 1 * w \<le> of_nat k"
    using b assms(3) mult_right_mono[of "min (rnd (of_nat n / d)) 1" 1 "of_nat k"] by simp
  ultimately show ?thesis unfolding cappedShare_def using rnd_ok_range[OF assms(1) _ _ assms(4)] by blast
qed

lemma computeImpactScore_spec:
  "computeImpactScore rnd fi fc cc ht cx = spec_impactScore rnd fi fc cc ht cx"
  by (simp add: computeImpactScore_def spec_impactScore_def cappedShare_def Let_def)

lemma computeImpactScore_range:
  assumes ok: "rnd_ok rnd"
  shows "0 \<le> computeImpactScore rnd fi fc cc ht cx \<and> computeImpactScore rnd fi fc cc ht cx \<le> 100"
proof -
  define a where "a = cappedShare rnd fi 30 35"
  define b where "b = cappedShare rnd fc 5 25"
  define c where "c = cappedShare rnd cc 100 20"
  define t :: rat where "t = (if ht then 0 else 10)"
  define e where "e = cappedShare rnd cx 50 10"
  have ra: "0 \<le> a \<and> a \<le> 35" using cappedShare_range[OF ok, of 30 35 35 fi] by (simp add: a_def)
  have rb: "0 \<le> b \<and> b \<le> 25" using cappedShare_range[OF ok, of 5 25 25 fc] by (simp add: b_def)
  have rc: "0 \<le> c \<and> c \<le> 20" using cappedShare_range[OF ok, of 100 20 20 cc] by (simp add: c_def)
  have rt: "0 \<le> t \<and> t \<le> 10" by (simp add: t_def)
  have re: "0 \<le> e \<and> e \<le> 10" using cappedShare_range[OF ok, of 50 10 10 cx] by (simp add: e_def)
  have s1: "0 \<le> rnd (a + b) \<and> rnd (a + b) \<le> 60"
    using rnd_ok_range[OF ok, of "a + b" 60] ra rb by simp
  have s2: "0 \<le> rnd (rnd (a + b) + c) \<and> rnd (rnd (a + b) + c) \<le> 80"
    using rnd_ok_range[OF ok, of "rnd (a + b) + c" 80] s1 rc by simp
  have s3: "0 \<le> rnd (rnd (rnd (a + b) + c) + t) \<and> rnd (rnd (rnd (a + b) + c) + t) \<le> 90"
    using rnd_ok_range[OF ok, of "rnd (rnd (a + b) + c) + t" 90] s2 rt by simp
  have s4: "0 \<le> rnd (rnd (rnd (rnd (a + b) + c) + t) + e) \<and> rnd (rnd (rnd (rnd (a + b) + c) + t) + e) \<le> 100"
    using rnd_ok_range[OF ok, of "rnd (rnd (rnd (a + b) + c) + t) + e" 100] s3 re by simp
  have "computeImpactScore rnd fi fc cc ht cx = js_round (rnd (rnd (rnd (rnd (a + b) + c) + t) + e))"
    by (simp add: computeImpactScore_def Let_def a_def b_def c_def t_def e_def)
  moreover have "0 \<le> js_round x \<and> js_round x \<le> 100" if "0 \<le> x" "x \<le> 100" for x
    using that unfolding js_round_def by (simp add: floor_le_iff le_floor_iff) 
  ultimately show ?thesis using s4 by simp
qed

lemma scoreFile_Some:
  "scoreFile rnd s (rel, node) = Some n \<longleftrightarrow>
     (\<not> isTestFile rel \<and> language node \<noteq> json \<and> language node \<noteq> css \<and>
      15 \<le> computeImpactScore rnd (sizeOrZero (buildFanInMap (importGraph s)) rel)
              (sizeOrZero (buildFileToFeatures (features s)) rel) (churnOf (gitChurns s) rel)
              (rel \<in> set (filesWithTests (files s))) (complexityOf (fileMetrics s) rel) \<and>
      n = \<lparr> impact_file = rel,
            fanIn = sizeOrZero (buildFanInMap (importGraph s)) rel,
            featureCount = sizeOrZero (buildFileToFeatures (features s)) rel,
            gitChurn = churnOf (gitChurns s) rel,
            hasTests = (rel \<in> set (filesWithTests (files s))),
            impactScore = computeImpactScore rnd (sizeOrZero (buildFanInMap (importGraph s)) rel)
              (sizeOrZero (buildFileToFeatures (features s)) rel) (churnOf (gitChurns s) rel)
              (rel \<in> set (filesWithTests (files s))) (complexityOf (fileMetrics s) rel),
            severity = severityOf (computeImpactScore rnd (sizeOrZero (buildFanInMap (importGraph s)) rel)
              (sizeOrZero (buildFileToFeatures (features s)) rel) (churnOf (gitChurns s) rel)
              (rel \<in> set (filesWithTests (files s))) (complexityOf (fileMetrics s) rel)) \<rparr>)"
  by (auto simp: scoreFile_def Let_def)

lemma set_map_filter: "set (List.map_filter f xs) = {y. \<exists>x\<in>set xs. f x = Some y}"
  by (induction xs) (auto simp: List.map_filter_simps split: option.splits)

lemma set_impactNodes_run:
  "impactNodes s = [] \<Longrightarrow>
   set (impactNodes (impactAnalyzer_run rnd s)) = {n. \<exists>e\<in>set (files s). scoreFile rnd s e = Some n}"
  by (simp add: impactAnalyzer_run_def set_map_filter)

lemma sorted_impactNodes_run:
  "sorted_wrt (\<lambda>a b. impactScore b \<le> impactScore a) (impactNodes (impactAnalyzer_run rnd s))"
proof -
  have "sorted (map (\<lambda>n. - impactScore n) (impactNodes (impactAnalyzer_run rnd s)))"
    by (simp add: impactAnalyzer_run_def)
  then show ?thesis by (simp add: sorted_map)
qed

lemma impactExample_nodes:
  "impactNodes (impactAnalyzer_run (\<lambda>x. x) impactExample) =
     [\<lparr> impact_file = ''src/app/main.ts'', fanIn = 0, featureCount = 1, gitChurn = 0,
        hasTests = False, impactScore = 15, severity = low \<rparr>]"
  by code_simp

lemma rnd_ok_id: "rnd_ok (\<lambda>x. x)"
  by (simp add: rnd_ok_def mono_def list_all_iff)

lemma impactExample_files:
  "files impactExample =
     [exNode ''src/core/util.ts'' ''.ts'' typescript 40,
         exNode ''src/core/util.test.ts'' ''.ts'' typescript 40,
         exNode ''src/app/main.ts'' ''.ts'' typescript 40,
         exNode ''src/app/data.json'' ''.json'' json 40]"
  by (simp add: impactExample_def exStore_def)

lemma impactNode_of_file:
  assumes dist: "distinct (map fst (files s))" and empty: "impactNodes s = []"
    and mem: "(rel, node) \<in> set (files s)"
  shows "n \<in> set (impactNodes (impactAnalyzer_run rnd s)) \<and> impact_file n = rel
           \<longleftrightarrow> scoreFile rnd s (rel, node) = Some n"
proof
  assume a: "n \<in> set (impactNodes (impactAnalyzer_run rnd s)) \<and> impact_file n = rel"
  then obtain e where h: "e \<in> set (files s)" "scoreFile rnd s e = Some n"
    using set_impactNodes_run[OF empty, of rnd] by auto
  obtain r nd where e: "e = (r, nd)" by (cases e)
  have "r = rel" using h(2) a by (simp add: e scoreFile_Some)
  moreover have "nd = node" if "r = rel"
    using that h(1) mem dist unfolding e by (meson eq_key_imp_eq_value)
  ultimately show "scoreFile rnd s (rel, node) = Some n" using h(2) e by simp
next
  assume b: "scoreFile rnd s (rel, node) = Some n"
  then have "impact_file n = rel" by (simp add: scoreFile_Some)
  moreover have "n \<in> set (impactNodes (impactAnalyzer_run rnd s))"
    using set_impactNodes_run[OF empty, of rnd] mem b by auto
  ultimately show "n \<in> set (impactNodes (impactAnalyzer_run rnd s)) \<and> impact_file n = rel" by simp
qed

lemma cappedShare_zero: "rnd_ok rnd \<Longrightarrow> cappedShare rnd 0 d w = 0"
  using rnd_ok_fix[of rnd 0] by (simp add: cappedShare_def)

text \<open>
  Claim C9.  When the store holds no churn entry at all, the commit count that the impact
  analyzer reads for every file is 0 and so is the churn term of the score, every emitted
  node records a churn of 0, and a file is in the output exactly when it is neither a
  test nor a JSON or CSS file and its score, computed with a churn of 0, is at least 15.
  The analyzer is a total function of the store: it has no failing branch.
\<close>

theorem churn_absent_is_zero:
  assumes ok: "rnd_ok rnd" and dist: "distinct (map fst (files s))" and empty: "impactNodes s = []"
    and nochurn: "gitChurns s = []"
    and mem: "(rel, node) \<in> set (files s)"
  defines "out \<equiv> impactNodes (impactAnalyzer_run rnd s)"
  shows "churnOf (gitChurns s) rel = 0 \<and>
         cappedShare rnd (churnOf (gitChurns s) rel) 100 20 = 0 \<and>
         list_all (\<lambda>n. gitChurn n = 0) out \<and>
         ((\<exists>n\<in>set out. impact_file n = rel) \<longleftrightarrow>
            (\<not> isTestFile rel \<and> language node \<noteq> json \<and> language node \<noteq> css \<and>
             15 \<le> spec_impactScore rnd
                     (sizeOrZero (buildFanInMap (importGraph s)) rel)
                     (sizeOrZero (buildFileToFeatures (features s)) rel)
                     0
                     (rel \<in> set (filesWithTests (files s)))
                     (complexityOf (fileMetrics s) rel)))"
proof -
  have c0: "churnOf (gitChurns s) r = 0" for r
    by (simp add: churnOf_def nochurn)
  have all0: "gitChurn n = 0" if "n \<in> set out" for n
  proof -
    have "n \<in> set (impactNodes (impactAnalyzer_run rnd s))"
      using that by (simp add: out_def)
    then obtain e where "scoreFile rnd s e = Some n"
      using set_impactNodes_run[OF empty, of rnd] by auto
    then have "scoreFile rnd s (fst e, snd e) = Some n" by simp
    then show ?thesis unfolding scoreFile_Some by (simp add: c0)
  qed
  have "(\<exists>n\<in>set out. impact_file n = rel) \<longleftrightarrow> (\<exists>n. scoreFile rnd s (rel, node) = Some n)"
    using impactNode_of_file[OF dist empty mem, of _ rnd] unfolding out_def by blast
  then have iff: "(\<exists>n\<in>set out. impact_file n = rel) \<longleftrightarrow>
            (\<not> isTestFile rel \<and> language node \<noteq> json \<and> language node \<noteq> css \<and>
             15 \<le> spec_impactScore rnd
                     (sizeOrZero (buildFanInMap (importGraph s)) rel)
                     (sizeOrZero (buildFileToFeatures (features s)) rel)
                     0
                     (rel \<in> set (filesWithTests (files s)))
                     (complexityOf (fileMetrics s) rel))"
    by (simp add: scoreFile_Some c0 computeImpactScore_spec)
  show ?thesis
    using c0 cappedShare_zero[OF ok] all0 iff by (simp add: list_all_iff)
qed

theorem churn_absent_is_zero_witness:
  "rnd_ok (\<lambda>x. x) \<and> distinct (map fst (files impactExample)) \<and> impactNodes impactExample = [] \<and>
   gitChurns impactExample = [] \<and>
   exNode ''src/app/main.ts'' ''.ts'' typescript 40 \<in> set (files impactExample) \<and>
   churnOf (gitChurns impactExample) ''src/app/main.ts'' = 0 \<and>
   cappedShare (\<lambda>x. x) (churnOf (gitChurns impactExample) ''src/app/main.ts'') 100 20 = 0 \<and>
   map gitChurn (impactNodes (impactAnalyzer_run (\<lambda>x. x) impactExample)) = [0] \<and>
   map impact_file (impactNodes (impactAnalyzer_run (\<lambda>x. x) impactExample)) = [''src/app/main.ts'']"
proof -
  have d: "distinct (map fst (files impactExample))"
    by (simp add: impactExample_files exNode_def)
  have e: "impactNodes impactExample = []"
    by (simp add: impactExample_def exStore_def)
  have g: "gitChurns impactExample = []"
    by (simp add: impactExample_def exStore_def)
  have m: "(''src/app/main.ts'', snd (exNode ''src/app/main.ts'' ''.ts'' typescript 40)) \<in> set (files impactExample)"
    by (simp add: impactExample_files exNode_def)
  note inst = churn_absent_is_zero[OF rnd_ok_id d e g m]
  show ?thesis
    using inst rnd_ok_id d e g m
    by (simp add: impactExample_nodes exNode_def cappedShare_def churnOf_def)
qed

subsection \<open>Fan-in and fan-out\<close>

lemma set_set_add: "set (set_add x s) = insert x (set s)"
  by (auto simp: set_add_def)

lemma keptSet_fanInStep:
  "keptSet (fanInStep e m) t = (if t = target e then insert (source e) (keptSet m t) else keptSet m t)"
proof (cases "map_of m (target e)")
  case None
  then show ?thesis by (simp add: keptSet_def fanInStep_def update_conv')
next
  case (Some l)
  then show ?thesis by (simp add: keptSet_def fanInStep_def update_conv' set_set_add)
qed

lemma keptSet_fold:
  "keptSet (fold fanInStep es m) t = keptSet m t \<union> set (map source (filter (\<lambda>e. target e = t) es))"
proof (induction es arbitrary: m)
  case Nil
  then show ?case by simp
next
  case (Cons e es)
  show ?case
    by (cases "target e = t") (simp_all add: Cons.IH keptSet_fanInStep)
qed

lemma distinct_set_add: "distinct s \<Longrightarrow> distinct (set_add x s)"
  by (simp add: set_add_def)

lemma fanInStep_lookup:
  "map_of (fanInStep e m) t =
     (if t = target e
      then Some (case map_of m (target e) of None \<Rightarrow> [source e] | Some l0 \<Rightarrow> set_add (source e) l0)
      else map_of m t)"
  by (cases "map_of m (target e)") (simp_all add: fanInStep_def update_conv')

lemma keptDistinct_fanInStep:
  assumes "keptDistinct m"
  shows "keptDistinct (fanInStep e m)"
  unfolding keptDistinct_def
proof (intro allI impI)
  fix t l assume h: "map_of (fanInStep e m) t = Some l"
  show "distinct l"
  proof (cases "t = target e")
    case False
    with h have "map_of m t = Some l" by (simp add: fanInStep_lookup)
    with assms show ?thesis unfolding keptDistinct_def by blast
  next
    case True
    show ?thesis
    proof (cases "map_of m (target e)")
      case None
      with h True have "l = [source e]" by (simp add: fanInStep_lookup)
      then show ?thesis by simp
    next
      case (Some l0)
      with h True have l: "l = set_add (source e) l0" by (simp add: fanInStep_lookup)
      have "distinct l0" using Some assms unfolding keptDistinct_def by blast
      then show ?thesis unfolding l by (rule distinct_set_add)
    qed
  qed
qed

lemma keptDistinct_fold: "keptDistinct m \<Longrightarrow> keptDistinct (fold fanInStep es m)"
  by (induction es arbitrary: m) (simp_all add: keptDistinct_fanInStep)

lemma sizeOrZero_card:
  assumes "keptDistinct m"
  shows "sizeOrZero m t = card (keptSet m t)"
proof (cases "map_of m t")
  case None
  then show ?thesis by (simp add: sizeOrZero_def keptSet_def)
next
  case (Some l)
  then have "distinct l" using assms unfolding keptDistinct_def by blast
  then show ?thesis using Some by (simp add: sizeOrZero_def keptSet_def distinct_card)
qed

lemma impact_fanIn_card:
  "sizeOrZero (buildFanInMap es) t = card (set (map source (filter (\<lambda>e. target e = t) es)))"
proof -
  have "keptDistinct []" by (simp add: keptDistinct_def)
  then have "keptDistinct (buildFanInMap es)"
    unfolding buildFanInMap_def by (rule keptDistinct_fold)
  moreover have "keptSet [] t = {}" by (simp add: keptSet_def)
  ultimately show ?thesis
    by (simp add: sizeOrZero_card buildFanInMap_def keptSet_fold)
qed

lemma countOrZero_countStep:
  "countOrZero (countStep k m) t = (if t = k then countOrZero m t + 1 else countOrZero m t)"
  by (cases "map_of m k") (simp_all add: countOrZero_def countStep_def update_conv')

lemma countOrZero_fold:
  "countOrZero (fold (\<lambda>e acc. countStep (f e) acc) es m) t
     = countOrZero m t + length (filter (\<lambda>e. f e = t) es)"
proof (induction es arbitrary: m)
  case Nil
  then show ?case by simp
next
  case (Cons e es)
  show ?case by (cases "f e = t") (simp_all add: Cons.IH countOrZero_countStep)
qed

lemma quality_fanIn_count:
  "countOrZero (qualityFanInMap es) t = length (filter (\<lambda>e. target e = t) es)"
  unfolding qualityFanInMap_def countOrZero_fold by (simp add: countOrZero_def)

lemma quality_fanOut_count:
  "countOrZero (qualityFanOutMap es) t = length (filter (\<lambda>e. source e = t) es)"
  unfolding qualityFanOutMap_def countOrZero_fold by (simp add: countOrZero_def)

lemma set_update_subset: "set (AList.update k v al) \<subseteq> insert (k, v) (set al)"
  by (induction al) auto

lemma fileMetricsStep_cases:
  "fileMetricsStep ext s entry metrics = metrics \<or>
   (\<exists>r. fileMetricsStep ext s entry metrics = AList.update (fst entry) r metrics \<and>
        m_fanIn r = countOrZero (qualityFanInMap (importGraph s)) (fst entry) \<and>
        m_fanOut r = countOrZero (qualityFanOutMap (importGraph s)) (fst entry))"
proof (cases "trim (codeContentOf ext (snd entry)) = []")
  case True
  then show ?thesis by (simp add: fileMetricsStep_def Let_def)
next
  case False
  let ?r = "metricsOf ext s (fst entry) (snd entry) (codeContentOf ext (snd entry))"
  have "fileMetricsStep ext s entry metrics = AList.update (fst entry) ?r metrics"
    using False by (simp add: fileMetricsStep_def Let_def)
  moreover have "m_fanIn ?r = countOrZero (qualityFanInMap (importGraph s)) (fst entry)"
    and "m_fanOut ?r = countOrZero (qualityFanOutMap (importGraph s)) (fst entry)"
    by (simp_all add: metricsOf_def)
  ultimately show ?thesis by blast
qed

lemma fileMetricsStep_counts:
  assumes "list_all (countsEdges (importGraph s)) metrics"
  shows "list_all (countsEdges (importGraph s)) (fileMetricsStep ext s entry metrics)"
proof -
  consider "fileMetricsStep ext s entry metrics = metrics"
    | r where "fileMetricsStep ext s entry metrics = AList.update (fst entry) r metrics"
        "m_fanIn r = countOrZero (qualityFanInMap (importGraph s)) (fst entry)"
        "m_fanOut r = countOrZero (qualityFanOutMap (importGraph s)) (fst entry)"
    using fileMetricsStep_cases[of ext s entry metrics] by blast
  then show ?thesis
  proof cases
    case 1
    then show ?thesis using assms by simp
  next
    case 2
    have new: "countsEdges (importGraph s) (fst entry, r)"
      by (simp add: countsEdges_def 2(2,3) quality_fanIn_count quality_fanOut_count)
    have "countsEdges (importGraph s) x" if "x \<in> set (AList.update (fst entry) r metrics)" for x
    proof -
      have "x = (fst entry, r) \<or> x \<in> set metrics"
        using that set_update_subset[of "fst entry" r metrics] by blast
      then show ?thesis using new assms by (auto simp: list_all_iff)
    qed
    then show ?thesis unfolding 2(1) list_all_iff by blast
  qed
qed

lemma computeFileMetrics_counts:
  "list_all (countsEdges (importGraph s)) metrics \<Longrightarrow>
   list_all (countsEdges (importGraph s)) (fold (fileMetricsStep ext s) fls metrics)"
  by (induction fls arbitrary: metrics) (simp_all add: fileMetricsStep_counts)

lemma fileMetrics_quality_run:
  "fileMetrics (qualityAnalyzer_run rnd ext s) = computeFileMetrics ext s"
  by (simp add: qualityAnalyzer_run_def Let_def)

text \<open>
  Claim C5, as amended.  In the metrics of the quality analyzer the fan-in of a file is the
  number of import edges whose target it is and its fan-out the number of edges whose
  source it is, so parallel edges count once each.  The fan-in that the impact analyzer
  scores and records is the number of distinct files that import the file: parallel edges
  from one importer count once.
\<close>

theorem fan_counts_by_agent:
  assumes "fileMetrics s = []" and "impactNodes s = []"
  shows "(\<forall>rel m. map_of (fileMetrics (qualityAnalyzer_run rnd ext s)) rel = Some m \<longrightarrow>
            m_fanIn m = length (filter (\<lambda>e. target e = rel) (importGraph s)) \<and>
            m_fanOut m = length (filter (\<lambda>e. source e = rel) (importGraph s))) \<and>
         (\<forall>n\<in>set (impactNodes (impactAnalyzer_run rnd s)).
            fanIn n = card (source ` {e \<in> set (importGraph s). target e = impact_file n}))"
proof (intro conjI allI impI ballI)
  fix rel m assume h: "map_of (fileMetrics (qualityAnalyzer_run rnd ext s)) rel = Some m"
  have "list_all (countsEdges (importGraph s)) (computeFileMetrics ext s)"
    unfolding computeFileMetrics_def using assms(1) by (intro computeFileMetrics_counts) simp
  moreover have "(rel, m) \<in> set (computeFileMetrics ext s)"
    using h map_of_SomeD unfolding fileMetrics_quality_run by fastforce
  ultimately have c: "countsEdges (importGraph s) (rel, m)" unfolding list_all_iff by blast
  show "m_fanIn m = length (filter (\<lambda>e. target e = rel) (importGraph s))"
    using c by (simp add: countsEdges_def)
  show "m_fanOut m = length (filter (\<lambda>e. source e = rel) (importGraph s))"
    using c by (simp add: countsEdges_def)
next
  fix n assume "n \<in> set (impactNodes (impactAnalyzer_run rnd s))"
  then obtain e where "scoreFile rnd s e = Some n"
    using set_impactNodes_run[OF assms(2), of rnd] by auto
  then have "scoreFile rnd s (fst e, snd e) = Some n" by simp
  then have "fanIn n = sizeOrZero (buildFanInMap (importGraph s)) (impact_file n)"
    unfolding scoreFile_Some by simp
  moreover have "set (map source (filter (\<lambda>e. target e = t) es)) = source ` {e \<in> set es. target e = t}" for es t
    by auto
  ultimately show "fanIn n = card (source ` {e \<in> set (importGraph s). target e = impact_file n})"
    by (simp add: impact_fanIn_card)
qed

lemma parallelExample_nodes:
  "impactNodes (impactAnalyzer_run (\<lambda>x. x) parallelExample) =
     [\<lparr> impact_file = ''src/cart/b.ts'', fanIn = 1, featureCount = 1, gitChurn = 0,
        hasTests = False, impactScore = 16, severity = low \<rparr>,
      \<lparr> impact_file = ''src/cart/a.ts'', fanIn = 0, featureCount = 1, gitChurn = 0,
        hasTests = False, impactScore = 15, severity = low \<rparr>]"
  by code_simp

text \<open>
  Claim C5 as stated fails for the impact analyzer: with two parallel edges from
  \<open>a.ts\<close> to \<open>b.ts\<close> the fan-in scored for \<open>b.ts\<close> is 1 and its score 16, where a
  fan-in of 2 would give 17.
\<close>

theorem fan_in_parallel_edges_counterexample:
  "length (filter (\<lambda>e. target e = ''src/cart/b.ts'') (importGraph parallelExample)) = 2 \<and>
   sizeOrZero (buildFanInMap (importGraph parallelExample)) ''src/cart/b.ts'' = 1 \<and>
   map (\<lambda>n. (impact_file n, fanIn n, impactScore n))
     (impactNodes (impactAnalyzer_run (\<lambda>x. x) parallelExample))
     = [(''src/cart/b.ts'', 1, 16), (''src/cart/a.ts'', 0, 15)] \<and>
   spec_impactScore (\<lambda>x. x) 2 1 0 False 0 = 17"
  by code_simp

lemma parallelExample_metrics:
  "map (\<lambda>entry. (fst entry, m_fanIn (snd entry), m_fanOut (snd entry)))
     (fileMetrics (qualityAnalyzer_run (\<lambda>x. x) (exExternals (\<lambda>p. ''export const x = 1'')) parallelExample))
     = [(''src/cart/a.ts'', 0, 2), (''src/cart/b.ts'', 2, 0)]"
  by code_simp

theorem fan_counts_by_agent_witness:
  "fileMetrics parallelExample = [] \<and> impactNodes parallelExample = [] \<and>
   map (\<lambda>entry. (fst entry, m_fanIn (snd entry), m_fanOut (snd entry)))
     (fileMetrics (qualityAnalyzer_run (\<lambda>x. x) (exExternals (\<lambda>p. ''export const x = 1'')) parallelExample))
     = [(''src/cart/a.ts'', 0, 2), (''src/cart/b.ts'', 2, 0)] \<and>
   map (\<lambda>n. (impact_file n, fanIn n)) (impactNodes (impactAnalyzer_run (\<lambda>x. x) parallelExample))
     = [(''src/cart/b.ts'', 1), (''src/cart/a.ts'', 0)]"
proof -
  have a: "fileMetrics parallelExample = []" by (simp add: parallelExample_def exStore_def)
  have b: "impactNodes parallelExample = []" by (simp add: parallelExample_def exStore_def)
  note inst = fan_counts_by_agent[OF a b, of "\<lambda>x. x" "exExternals (\<lambda>p. ''export const x = 1'')"]
  show ?thesis using inst a b by (simp add: parallelExample_metrics parallelExample_nodes)
qed

subsection \<open>Impact analyzer: the score and the weighted sum\<close>

lemma rnd_ok_binary64: "rnd_ok binary64"
proof -
  have "binary64 (of_nat k) = of_nat k" if "k \<in> set [0..<101]" for k
  proof -
    have "k < 2 ^ 53" using that by simp
    then show ?thesis by (rule binary64_of_nat)
  qed
  then show ?thesis by (simp add: rnd_ok_def binary64_mono list_all_iff)
qed

text \<open>A rounding of the operations that stays within \<open>d\<close> of the exact result up to
  100.\<close>

lemma cappedShare_close:
  assumes ok: "rnd_ok rnd"
    and close: "\<And>x. 0 \<le> x \<Longrightarrow> x \<le> 100 \<Longrightarrow> \<bar>rnd x - x\<bar> \<le> d"
    and dpos: "0 < D" and w: "w = of_nat k" "k \<le> 100"
  shows "\<bar>cappedShare rnd n D w - min (of_nat n / D) 1 * w\<bar> \<le> (w + 1) * d"
proof -
  have m: "mono rnd" using ok by (simp add: rnd_ok_def)
  have one: "rnd 1 = 1" using rnd_ok_fix[OF ok, of 1] by simp
  have d0: "0 \<le> d" using close[of 0] by simp
  have w0: "0 \<le> w" "w \<le> 100" using w by simp_all
  define q where "q = rnd (of_nat n / D)"
  have q0: "0 \<le> of_nat n / D" using dpos by simp
  have near: "\<bar>min q 1 - min (of_nat n / D) 1\<bar> \<le> d"
  proof (cases "of_nat n / D \<le> 1")
    case True
    have "q \<le> 1" using monoD[OF m True] one by (simp add: q_def)
    moreover have "\<bar>q - of_nat n / D\<bar> \<le> d"
      unfolding q_def using close[OF q0] True by simp
    ultimately show ?thesis using True by (simp add: min_def)
  next
    case False
    then have "1 \<le> of_nat n / D" by simp
    then have "1 \<le> q" using monoD[OF m, of 1 "of_nat n / D"] one by (simp add: q_def)
    then show ?thesis using False d0 by (simp add: min_def)
  qed
  have r0: "0 \<le> rnd 0" using rnd_ok_fix[OF ok, of 0] by simp
  have "0 \<le> q" using monoD[OF m q0] r0 by (simp add: q_def)
  then have mq: "0 \<le> min q 1" "min q 1 \<le> 1" by simp_all
  have p0: "0 \<le> min q 1 * w" using mq(1) w0(1) by simp
  have "min q 1 * w \<le> 1 * w" using mq(2) w0(1) by (rule mult_right_mono)
  then have p1: "min q 1 * w \<le> 100" using w0(2) by simp
  have e1: "\<bar>rnd (min q 1 * w) - min q 1 * w\<bar> \<le> d" using close[OF p0 p1] .
  have "\<bar>min q 1 * w - min (of_nat n / D) 1 * w\<bar> = \<bar>min q 1 - min (of_nat n / D) 1\<bar> * w"
    using w0(1) by (simp add: abs_mult left_diff_distrib[symmetric])
  also have "\<dots> \<le> d * w" using near w0(1) by (rule mult_right_mono)
  finally have e2: "\<bar>min q 1 * w - min (of_nat n / D) 1 * w\<bar> \<le> d * w" .
  have "\<bar>rnd (min q 1 * w) - min (of_nat n / D) 1 * w\<bar> \<le> d + d * w"
    using e1 e2 by linarith
  then show ?thesis by (simp add: cappedShare_def q_def algebra_simps)
qed

lemma rnd_sum_close:
  assumes ok: "rnd_ok rnd"
    and close: "\<And>x. 0 \<le> x \<Longrightarrow> x \<le> 100 \<Longrightarrow> \<bar>rnd x - x\<bar> \<le> d"
    and "0 \<le> a" "a \<le> of_nat i" "0 \<le> b" "b \<le> of_nat j" "i + j \<le> 100"
  shows "0 \<le> rnd (a + b) \<and> rnd (a + b) \<le> of_nat (i + j) \<and> \<bar>rnd (a + b) - (a + b)\<bar> \<le> d"
proof -
  have lo: "0 \<le> a + b" and hi: "a + b \<le> of_nat (i + j)" using assms(3-6) by simp_all
  have "of_nat (i + j) \<le> (100::rat)" using assms(7) by (metis of_nat_le_iff of_nat_numeral)
  then have "a + b \<le> 100" using hi by linarith
  then show ?thesis using rnd_ok_range[OF ok lo hi assms(7)] close[OF lo] by simp
qed

lemma computeImpactScore_sum_close:
  assumes ok: "rnd_ok rnd"
    and close: "\<And>x. 0 \<le> x \<Longrightarrow> x \<le> 100 \<Longrightarrow> \<bar>rnd x - x\<bar> \<le> d"
  shows "\<exists>S. computeImpactScore rnd fi fc cc ht cx = js_round S \<and> 0 \<le> S \<and> S \<le> 100 \<and>
             \<bar>S - spec_weightedSum fi fc cc ht cx\<bar> \<le> 98 * d"
proof -
  define a where "a = cappedShare rnd fi 30 35"
  define b where "b = cappedShare rnd fc 5 25"
  define c where "c = cappedShare rnd cc 100 20"
  define t :: rat where "t = (if ht then 0 else 10)"
  define e where "e = cappedShare rnd cx 50 10"
  define a' :: rat where "a' = min (of_nat fi / 30) 1 * 35"
  define b' :: rat where "b' = min (of_nat fc / 5) 1 * 25"
  define c' :: rat where "c' = min (of_nat cc / 100) 1 * 20"
  define e' :: rat where "e' = min (of_nat cx / 50) 1 * 10"
  have ra: "0 \<le> a \<and> a \<le> of_nat 35" using cappedShare_range[OF ok, of 30 35 35 fi] by (simp add: a_def)
  have rb: "0 \<le> b \<and> b \<le> of_nat 25" using cappedShare_range[OF ok, of 5 25 25 fc] by (simp add: b_def)
  have rc: "0 \<le> c \<and> c \<le> of_nat 20" using cappedShare_range[OF ok, of 100 20 20 cc] by (simp add: c_def)
  have rt: "0 \<le> t \<and> t \<le> of_nat 10" by (simp add: t_def)
  have re: "0 \<le> e \<and> e \<le> of_nat 10" using cappedShare_range[OF ok, of 50 10 10 cx] by (simp add: e_def)
  have ea: "\<bar>a - a'\<bar> \<le> 36 * d"
    using cappedShare_close[OF ok close, of 30 35 35 fi] by (simp add: a_def a'_def)
  have eb: "\<bar>b - b'\<bar> \<le> 26 * d"
    using cappedShare_close[OF ok close, of 5 25 25 fc] by (simp add: b_def b'_def)
  have ec: "\<bar>c - c'\<bar> \<le> 21 * d"
    using cappedShare_close[OF ok close, of 100 20 20 cc] by (simp add: c_def c'_def)
  have ee: "\<bar>e - e'\<bar> \<le> 11 * d"
    using cappedShare_close[OF ok close, of 50 10 10 cx] by (simp add: e_def e'_def)
  define s1 where "s1 = rnd (a + b)"
  define s2 where "s2 = rnd (s1 + c)"
  define s3 where "s3 = rnd (s2 + t)"
  define s4 where "s4 = rnd (s3 + e)"
  have r1: "0 \<le> s1 \<and> s1 \<le> of_nat (35 + 25) \<and> \<bar>s1 - (a + b)\<bar> \<le> d"
    unfolding s1_def using ra rb by (intro rnd_sum_close[OF ok close]) simp_all
  have r2: "0 \<le> s2 \<and> s2 \<le> of_nat (60 + 20) \<and> \<bar>s2 - (s1 + c)\<bar> \<le> d"
    unfolding s2_def using r1 rc by (intro rnd_sum_close[OF ok close]) simp_all
  have r3: "0 \<le> s3 \<and> s3 \<le> of_nat (80 + 10) \<and> \<bar>s3 - (s2 + t)\<bar> \<le> d"
    unfolding s3_def using r2 rt by (intro rnd_sum_close[OF ok close]) simp_all
  have r4: "0 \<le> s4 \<and> s4 \<le> of_nat (90 + 10) \<and> \<bar>s4 - (s3 + e)\<bar> \<le> d"
    unfolding s4_def using r3 re by (intro rnd_sum_close[OF ok close]) simp_all
  have eq: "computeImpactScore rnd fi fc cc ht cx = js_round s4"
    by (simp add: computeImpactScore_def Let_def a_def b_def c_def t_def e_def
        s1_def s2_def s3_def s4_def)
  have sp: "spec_weightedSum fi fc cc ht cx = a' + b' + c' + t + e'"
    by (simp add: spec_weightedSum_def a'_def b'_def c'_def t_def e'_def)
  have "\<bar>s4 - (a' + b' + c' + t + e')\<bar> \<le> 98 * d"
    using r1 r2 r3 r4 ea eb ec ee by linarith
  moreover have "0 \<le> s4 \<and> s4 \<le> 100" using r4 by simp
  ultimately show ?thesis using eq sp by auto
qed

text \<open>Thirty times the weighted sum is an integer.\<close>

lemma min_share: "0 < D \<Longrightarrow> min (of_nat n / of_nat D) (1::rat) = of_nat (min n D) / of_nat D"
  by (cases "n \<le> D") (simp_all add: min_def)

lemma spec_weightedSum_integral:
  "30 * spec_weightedSum fi fc cc ht cx =
     of_int (35 * int (min fi 30) + 150 * int (min fc 5) + 6 * int (min cc 100)
             + (if ht then 0 else 300) + 6 * int (min cx 50))"
proof -
  have a: "min (of_nat fi / 30) (1::rat) = of_nat (min fi 30) / 30"
    using min_share[of 30 fi] by simp
  have b: "min (of_nat fc / 5) (1::rat) = of_nat (min fc 5) / 5"
    using min_share[of 5 fc] by simp
  have c: "min (of_nat cc / 100) (1::rat) = of_nat (min cc 100) / 100"
    using min_share[of 100 cc] by simp
  have e: "min (of_nat cx / 50) (1::rat) = of_nat (min cx 50) / 50"
    using min_share[of 50 cx] by simp
  show ?thesis
    unfolding spec_weightedSum_def a b c e by simp
qed

lemma round_near:
  fixes x S :: rat
  assumes int: "30 * x = of_int Z" and near: "\<bar>S - x\<bar> < 1 / 30"
  shows "js_round x - 1 \<le> js_round S \<and> js_round S \<le> js_round x \<and>
         (frac x \<noteq> 1 / 2 \<longrightarrow> js_round S = js_round x)"
proof -
  define W where "W = Z + 15"
  define K where "K = W div 30"
  define r where "r = W mod 30"
  define p :: rat where "p = of_int r / 30"
  have r: "0 \<le> r" "r \<le> 29" by (simp_all add: r_def)
  have W: "W = 30 * K + r" by (simp add: K_def r_def)
  have "30 * (x + 1 / 2) = of_int W" using int by (simp add: W_def algebra_simps)
  then have y: "x + 1 / 2 = of_int K + p" by (simp add: W p_def)
  have "(of_int 0 :: rat) \<le> of_int r" "(of_int r :: rat) \<le> of_int 29"
    using r by (simp_all only: of_int_le_iff)
  then have p: "0 \<le> p" "p \<le> 29 / 30" by (simp_all add: p_def)
  have n: "S - x < 1 / 30" "x - S < 1 / 30" using near by linarith+
  have "of_int K \<le> x + 1 / 2" "x + 1 / 2 < of_int K + 1" using y p by linarith+
  then have fx: "js_round x = K"
    unfolding js_round_def by (intro floor_unique)
  have lo: "of_int K - 1 \<le> S + 1 / 2" and hi: "S + 1 / 2 < of_int K + 1"
    using n y p by linarith+
  have "of_int (K - 1) \<le> S + 1 / 2" using lo by simp
  then have l1: "K - 1 \<le> js_round S" unfolding js_round_def by (simp only: le_floor_iff)
  have "S + 1 / 2 < of_int (K + 1)" using hi by simp
  then have "js_round S < K + 1" unfolding js_round_def by (simp only: floor_less_iff)
  then have l2: "js_round S \<le> K" by simp
  have l3: "js_round S = K" if "frac x \<noteq> 1 / 2"
  proof -
    have "r \<noteq> 0"
    proof
      assume "r = 0"
      then have "p = 0" by (simp add: p_def)
      then have xe: "x = of_int (K - 1) + 1 / 2" using y by simp
      have "of_int (K - 1) \<le> x" "x < of_int (K - 1) + 1" using xe by linarith+
      then have fl: "\<lfloor>x\<rfloor> = K - 1" by (intro floor_unique)
      have "frac x = x - of_int \<lfloor>x\<rfloor>" by (simp only: frac_def)
      then have "frac x = 1 / 2" unfolding fl using xe by linarith
      then show False using that by simp
    qed
    then have "1 \<le> r" using r(1) by simp
    then have "(of_int 1 :: rat) \<le> of_int r" by (simp only: of_int_le_iff)
    then have "1 / 30 \<le> p" by (simp add: p_def)
    then have "of_int K \<le> S + 1 / 2" using n y by linarith
    then have "K \<le> js_round S" unfolding js_round_def by (simp only: le_floor_iff)
    then show ?thesis using l2 by simp
  qed
  show ?thesis using fx l1 l2 l3 by simp
qed

lemma binary64_close_100:
  assumes "0 \<le> x" "x \<le> 100"
  shows "\<bar>binary64 x - x\<bar> \<le> 1 / 2 ^ 47"
  using binary64_close[OF assms] by (simp only: power_int_minus_divide power_int_numeral)

text \<open>The score of the analyzer against the exactly rounded sum.\<close>

lemma computeImpactScore_near:
  "js_round (spec_weightedSum fi fc cc ht cx) - 1 \<le> computeImpactScore binary64 fi fc cc ht cx \<and>
   computeImpactScore binary64 fi fc cc ht cx \<le> js_round (spec_weightedSum fi fc cc ht cx) \<and>
   (frac (spec_weightedSum fi fc cc ht cx) \<noteq> 1 / 2 \<longrightarrow>
      computeImpactScore binary64 fi fc cc ht cx = js_round (spec_weightedSum fi fc cc ht cx))"
proof -
  obtain S where S: "computeImpactScore binary64 fi fc cc ht cx = js_round S"
      "\<bar>S - spec_weightedSum fi fc cc ht cx\<bar> \<le> 98 * (1 / 2 ^ 47)"
    using computeImpactScore_sum_close[OF rnd_ok_binary64 binary64_close_100, of fi fc cc ht cx]
    by blast
  have "98 * (1 / 2 ^ 47) < (1 / 30 :: rat)" by simp
  then have near: "\<bar>S - spec_weightedSum fi fc cc ht cx\<bar> < 1 / 30" using S(2) by linarith
  show ?thesis
    unfolding S(1) by (rule round_near[OF spec_weightedSum_integral near])
qed

lemma fileToFeaturesStep_fanInStep:
  "fileToFeaturesStep fid f m =
     fanInStep \<lparr> source = fid, target = f, specifiers = [], isDefault = False, isDynamic = False \<rparr> m"
  by (cases "map_of m f") (simp_all add: fileToFeaturesStep_def fanInStep_def)

lemma impact_featureCount_card:
  "sizeOrZero (buildFileToFeatures fs) rel
     = card (set (map feature_id (filter (\<lambda>f. rel \<in> set (feature_files f)) fs)))"
proof -
  define mk where
    "mk fid f = \<lparr> source = fid, target = f, specifiers = [], isDefault = False, isDynamic = False \<rparr>"
    for fid f :: string
  define g where "g fe = map (mk (feature_id fe)) (feature_files fe)" for fe :: Feature
  have inner: "fold (fileToFeaturesStep fid) xs m = fold fanInStep (map (mk fid) xs) m" for fid xs m
    by (induction xs arbitrary: m) (simp_all add: fileToFeaturesStep_fanInStep mk_def)
  have outer: "fold (\<lambda>feature m. fold (fileToFeaturesStep (feature_id feature)) (feature_files feature) m) fs m
                 = fold fanInStep (concat (map g fs)) m" for m
    by (induction fs arbitrary: m) (simp_all add: inner g_def)
  have eq: "buildFileToFeatures fs = buildFanInMap (concat (map g fs))"
    by (simp only: buildFileToFeatures_def buildFanInMap_def outer)
  have sel: "target (mk v f) = f" "source (mk v f) = v" for v f
    by (simp_all add: mk_def)
  have "set (map source (filter (\<lambda>e. target e = rel) (concat (map g fs))))
          = set (map feature_id (filter (\<lambda>f. rel \<in> set (feature_files f)) fs))"
  proof (intro set_eqI iffI)
    fix v assume "v \<in> set (map source (filter (\<lambda>e. target e = rel) (concat (map g fs))))"
    then obtain e where e: "e \<in> set (concat (map g fs))" "target e = rel" "source e = v" by auto
    then obtain fe where fe: "fe \<in> set fs" "e \<in> set (g fe)" by auto
    then obtain f where f: "f \<in> set (feature_files fe)" "e = mk (feature_id fe) f"
      by (auto simp add: g_def)
    have "f = rel" "feature_id fe = v" using e(2,3) f(2) sel by simp_all
    then show "v \<in> set (map feature_id (filter (\<lambda>f. rel \<in> set (feature_files f)) fs))"
      using fe(1) f(1) by force
  next
    fix v assume "v \<in> set (map feature_id (filter (\<lambda>f. rel \<in> set (feature_files f)) fs))"
    then obtain fe where fe: "fe \<in> set fs" "rel \<in> set (feature_files fe)" "feature_id fe = v"
      by auto
    have "mk v rel \<in> set (g fe)" using fe(2,3) by (auto simp add: g_def)
    then have "mk v rel \<in> set (concat (map g fs))" using fe(1) by auto
    then have "mk v rel \<in> set (filter (\<lambda>e. target e = rel) (concat (map g fs)))"
      using sel(1) by simp
    then have "source (mk v rel) \<in> set (map source (filter (\<lambda>e. target e = rel) (concat (map g fs))))"
      by (simp only: set_map) (rule imageI)
    then show "v \<in> set (map source (filter (\<lambda>e. target e = rel) (concat (map g fs))))"
      by (simp only: sel(2))
  qed
  then show ?thesis
    by (simp only: eq impact_fanIn_card)
qed

lemma hasTests_iff:
  assumes "(rel, node) \<in> set fls"
  shows "rel \<in> set (filesWithTests fls) \<longleftrightarrow>
           (\<exists>t \<in> set (map fst fls). isTestFile t \<and>
              replaceFirst (replaceFirst t ''.spec.'' ''.'') ''.test.'' ''.'' = rel)"
proof -
  have "rel \<in> fst ` set fls" using assms by force
  then have "map_of fls rel \<noteq> None" by (simp add: map_of_eq_None_iff)
  then have "map_has fls rel" by (simp add: map_has_def)
  then show ?thesis
    by (auto simp add: filesWithTests_def testFilesOf_def sourceFileOf_def)
qed

text \<open>
  Claim C3, as amended.  For a file of the inventory that is neither a test nor a JSON or
  CSS file, take the number of distinct files that import it, the number of distinct
  features that hold it, the commit count of its churn entry (0 without an entry), whether
  the inventory holds a test file whose name without \<open>.spec.\<close> or \<open>.test.\<close> is the
  file's, and the cyclomatic complexity of its metrics entry (0 without an entry).  The
  score that the analyzer computes from them in double precision lies between 0 and 100
  and is the weighted sum of the specification rounded to the nearest integer, except
  when that sum is exactly half-way between two integers: there the score is one of the
  two.  The output holds a node for the file exactly when the score is at least 15; the
  node records the five inputs, the score and the severity tier of the score (critical
  from 70, high from 50, medium from 30, low otherwise); and the output is ordered by
  descending score.
\<close>

theorem impact_score_near_formula:
  assumes dist: "distinct (map fst (files s))" and empty: "impactNodes s = []"
    and mem: "(rel, node) \<in> set (files s)"
    and src: "\<not> isTestFile rel" "language node \<noteq> json" "language node \<noteq> css"
  defines "out \<equiv> impactNodes (impactAnalyzer_run binary64 s)"
  defines "fi \<equiv> card (set (map source (filter (\<lambda>e. target e = rel) (importGraph s))))"
  defines "fc \<equiv> card (set (map feature_id (filter (\<lambda>f. rel \<in> set (feature_files f)) (features s))))"
  defines "cc \<equiv> (case map_of (gitChurns s) rel of None \<Rightarrow> 0 | Some c \<Rightarrow> commitCount c)"
  defines "ht \<equiv> (\<exists>t \<in> set (map fst (files s)). isTestFile t \<and>
                    replaceFirst (replaceFirst t ''.spec.'' ''.'') ''.test.'' ''.'' = rel)"
  defines "cx \<equiv> (case map_of (fileMetrics s) rel of None \<Rightarrow> 0 | Some m \<Rightarrow> cyclomaticComplexity m)"
  defines "x \<equiv> spec_weightedSum fi fc cc ht cx"
  defines "sc \<equiv> computeImpactScore binary64 fi fc cc ht cx"
  shows "(frac x \<noteq> 1 / 2 \<longrightarrow> sc = js_round x) \<and>
         js_round x - 1 \<le> sc \<and> sc \<le> js_round x \<and>
         0 \<le> sc \<and> sc \<le> 100 \<and>
         ((\<exists>n\<in>set out. impact_file n = rel) \<longleftrightarrow> 15 \<le> sc) \<and>
         (\<forall>n\<in>set out. impact_file n = rel \<longrightarrow>
            fanIn n = fi \<and> featureCount n = fc \<and> gitChurn n = cc \<and> hasTests n = ht \<and>
            impactScore n = sc \<and>
            severity n = (if 70 \<le> sc then critical else if 50 \<le> sc then high
                          else if 30 \<le> sc then medium else low)) \<and>
         sorted_wrt (\<lambda>a b. impactScore b \<le> impactScore a) out"
proof -
  have i1: "sizeOrZero (buildFanInMap (importGraph s)) rel = fi"
    by (simp only: fi_def impact_fanIn_card)
  have i2: "sizeOrZero (buildFileToFeatures (features s)) rel = fc"
    by (simp only: fc_def impact_featureCount_card)
  have i3: "churnOf (gitChurns s) rel = cc"
    by (simp only: cc_def churnOf_def)
  have i4: "(rel \<in> set (filesWithTests (files s))) = ht"
    unfolding ht_def by (rule hasTests_iff[OF mem])
  have i5: "complexityOf (fileMetrics s) rel = cx"
    by (simp only: cx_def complexityOf_def)
  have score: "scoreFile binary64 s (rel, node) = Some n \<longleftrightarrow>
      (15 \<le> sc \<and>
       n = \<lparr> impact_file = rel, fanIn = fi, featureCount = fc, gitChurn = cc, hasTests = ht,
             impactScore = sc, severity = severityOf sc \<rparr>)" for n
    unfolding scoreFile_Some i1 i2 i3 i4 i5 using src by (simp add: sc_def)
  have own: "n \<in> set out \<and> impact_file n = rel \<longleftrightarrow> scoreFile binary64 s (rel, node) = Some n" for n
    unfolding out_def by (rule impactNode_of_file[OF dist empty mem])
  have near: "(frac x \<noteq> 1 / 2 \<longrightarrow> sc = js_round x) \<and> js_round x - 1 \<le> sc \<and> sc \<le> js_round x"
    unfolding x_def sc_def using computeImpactScore_near[of fi fc cc ht cx] by blast
  have range: "0 \<le> sc \<and> sc \<le> 100"
    unfolding sc_def by (rule computeImpactScore_range[OF rnd_ok_binary64])
  have emitted: "(\<exists>n\<in>set out. impact_file n = rel) \<longleftrightarrow> 15 \<le> sc"
  proof -
    have "(\<exists>n\<in>set out. impact_file n = rel) \<longleftrightarrow> (\<exists>n. scoreFile binary64 s (rel, node) = Some n)"
      using own by blast
    also have "\<dots> \<longleftrightarrow> 15 \<le> sc" unfolding score by simp
    finally show ?thesis .
  qed
  have fields: "fanIn n = fi \<and> featureCount n = fc \<and> gitChurn n = cc \<and> hasTests n = ht \<and>
            impactScore n = sc \<and>
            severity n = (if 70 \<le> sc then critical else if 50 \<le> sc then high
                          else if 30 \<le> sc then medium else low)"
    if "n \<in> set out" "impact_file n = rel" for n
  proof -
    have "scoreFile binary64 s (rel, node) = Some n" using own that by blast
    then have "n = \<lparr> impact_file = rel, fanIn = fi, featureCount = fc, gitChurn = cc, hasTests = ht,
             impactScore = sc, severity = severityOf sc \<rparr>"
      unfolding score by simp
    then show ?thesis by (simp add: severityOf_def)
  qed
  show ?thesis
    using near range emitted fields sorted_impactNodes_run[of binary64 s] unfolding out_def by blast
qed

lemma scoreExample_nodes:
  "impactNodes (impactAnalyzer_run binary64 scoreExample) =
     [\<lparr> impact_file = ''src/core/engine.ts'', fanIn = 2, featureCount = 2, gitChurn = 60,
        hasTests = False, impactScore = 40, severity = medium \<rparr>]"
  by code_simp

lemma scoreExample_inputs:
  "card (set (map source (filter (\<lambda>e. target e = ''src/core/engine.ts'') (importGraph scoreExample)))) = 2"
  "card (set (map feature_id (filter (\<lambda>f. ''src/core/engine.ts'' \<in> set (feature_files f))
     (features scoreExample)))) = 2"
  "(case map_of (gitChurns scoreExample) ''src/core/engine.ts'' of None \<Rightarrow> 0
    | Some c \<Rightarrow> commitCount c) = 60"
  "(\<exists>t \<in> set (map fst (files scoreExample)). isTestFile t \<and>
      replaceFirst (replaceFirst t ''.spec.'' ''.'') ''.test.'' ''.'' = ''src/core/engine.ts'') = False"
  "(case map_of (fileMetrics scoreExample) ''src/core/engine.ts'' of None \<Rightarrow> 0
    | Some m \<Rightarrow> cyclomaticComplexity m) = 30"
  by code_simp+

lemma scoreExample_sum:
  "spec_weightedSum 2 2 60 False 30 = 121 / 3" "frac (121 / 3 :: rat) = 1 / 3"
  "js_round (121 / 3) = 40"
  by code_simp+

lemma tieExample_nodes:
  "impactNodes (impactAnalyzer_run binary64 tieExample) =
     [\<lparr> impact_file = ''src/lib/core.ts'', fanIn = 3, featureCount = 0, gitChurn = 59,
        hasTests = False, impactScore = 29, severity = low \<rparr>]"
  by code_simp

lemma tieExample_inputs:
  "card (set (map source (filter (\<lambda>e. target e = ''src/lib/util.ts'') (importGraph tieExample)))) = 3"
  "card (set (map feature_id (filter (\<lambda>f. ''src/lib/util.ts'' \<in> set (feature_files f))
     (features tieExample)))) = 0"
  "(case map_of (gitChurns tieExample) ''src/lib/util.ts'' of None \<Rightarrow> 0
    | Some c \<Rightarrow> commitCount c) = 8"
  "(\<exists>t \<in> set (map fst (files tieExample)). isTestFile t \<and>
      replaceFirst (replaceFirst t ''.spec.'' ''.'') ''.test.'' ''.'' = ''src/lib/util.ts'') = True"
  "(case map_of (fileMetrics tieExample) ''src/lib/util.ts'' of None \<Rightarrow> 0
    | Some m \<Rightarrow> cyclomaticComplexity m) = 47"
  "card (set (map source (filter (\<lambda>e. target e = ''src/lib/core.ts'') (importGraph tieExample)))) = 3"
  "card (set (map feature_id (filter (\<lambda>f. ''src/lib/core.ts'' \<in> set (feature_files f))
     (features tieExample)))) = 0"
  "(case map_of (gitChurns tieExample) ''src/lib/core.ts'' of None \<Rightarrow> 0
    | Some c \<Rightarrow> commitCount c) = 59"
  "(\<exists>t \<in> set (map fst (files tieExample)). isTestFile t \<and>
      replaceFirst (replaceFirst t ''.spec.'' ''.'') ''.test.'' ''.'' = ''src/lib/core.ts'') = False"
  "(case map_of (fileMetrics tieExample) ''src/lib/core.ts'' of None \<Rightarrow> 0
    | Some m \<Rightarrow> cyclomaticComplexity m) = 21"
  by code_simp+

lemma tieExample_sums:
  "spec_weightedSum 3 0 8 True 47 = 29 / 2" "js_round (29 / 2) = 15"
  "spec_weightedSum 3 0 59 False 21 = 59 / 2" "js_round (59 / 2) = 30"
  "isTestFile ''src/lib/util.ts'' = False" "isTestFile ''src/lib/core.ts'' = False"
  by code_simp+

theorem impact_score_near_formula_witness:
  "distinct (map fst (files scoreExample)) \<and> impactNodes scoreExample = [] \<and>
   exNode ''src/core/engine.ts'' ''.ts'' typescript 40 \<in> set (files scoreExample) \<and>
   isTestFile ''src/core/engine.ts'' = False \<and>
   spec_weightedSum 2 2 60 False 30 = 121 / 3 \<and>
   js_round (121 / 3) = 40 \<and>
   computeImpactScore binary64 2 2 60 False 30 = 40 \<and>
   impactNodes (impactAnalyzer_run binary64 scoreExample) =
     [\<lparr> impact_file = ''src/core/engine.ts'', fanIn = 2, featureCount = 2, gitChurn = 60,
        hasTests = False, impactScore = 40, severity = medium \<rparr>]"
proof -
  have f: "files scoreExample =
     [exNode ''src/core/engine.ts'' ''.ts'' typescript 40,
      exNode ''src/app/a.ts'' ''.ts'' typescript 40,
      exNode ''src/app/b.ts'' ''.ts'' typescript 40]"
    by (simp add: scoreExample_def exStore_def)
  have d: "distinct (map fst (files scoreExample))"
    by (simp add: f exNode_def)
  have e: "impactNodes scoreExample = []"
    by (simp add: scoreExample_def exStore_def)
  have m: "(''src/core/engine.ts'', snd (exNode ''src/core/engine.ts'' ''.ts'' typescript 40))
             \<in> set (files scoreExample)"
    by (simp add: f exNode_def)
  have t: "\<not> isTestFile ''src/core/engine.ts''"
    by code_simp
  have l: "language (snd (exNode ''src/core/engine.ts'' ''.ts'' typescript 40)) \<noteq> json"
     "language (snd (exNode ''src/core/engine.ts'' ''.ts'' typescript 40)) \<noteq> css"
    by (simp_all add: exNode_def)
  note inst = impact_score_near_formula[OF d e m t l, unfolded scoreExample_inputs scoreExample_sum]
  have sc: "computeImpactScore binary64 2 2 60 False 30 = 40"
    using inst by simp
  show ?thesis
    using sc d e t by (simp add: f scoreExample_sum scoreExample_nodes)
qed

text \<open>
  Claim C3 as stated fails where the weighted sum is half-way between two integers.  For
  \<open>util.ts\<close> the sum is 14.5, which rounds to 15, so the claim has a record with score
  15; the analyzer computes 14 and emits nothing.  For \<open>core.ts\<close> the sum is 29.5, which
  rounds to 30 and the tier medium; the analyzer emits 29 and low.
\<close>

theorem impact_score_tie_counterexample:
  "card (set (map source (filter (\<lambda>e. target e = ''src/lib/util.ts'') (importGraph tieExample)))) = 3 \<and>
   card (set (map feature_id (filter (\<lambda>f. ''src/lib/util.ts'' \<in> set (feature_files f))
     (features tieExample)))) = 0 \<and>
   map_option commitCount (map_of (gitChurns tieExample) ''src/lib/util.ts'') = Some 8 \<and>
   map_of (files tieExample) ''src/lib/util.test.ts'' \<noteq> None \<and>
   map_option cyclomaticComplexity (map_of (fileMetrics tieExample) ''src/lib/util.ts'') = Some 47 \<and>
   isTestFile ''src/lib/util.ts'' = False \<and>
   js_round (min (3 / 30) 1 * 35 + min (0 / 5) 1 * 25 + min (8 / 100) 1 * 20 + 0
             + min (47 / 50) 1 * 10) = 15 \<and>
   card (set (map source (filter (\<lambda>e. target e = ''src/lib/core.ts'') (importGraph tieExample)))) = 3 \<and>
   card (set (map feature_id (filter (\<lambda>f. ''src/lib/core.ts'' \<in> set (feature_files f))
     (features tieExample)))) = 0 \<and>
   map_option commitCount (map_of (gitChurns tieExample) ''src/lib/core.ts'') = Some 59 \<and>
   map_of (files tieExample) ''src/lib/core.test.ts'' = None \<and>
   map_of (files tieExample) ''src/lib/core.spec.ts'' = None \<and>
   map_option cyclomaticComplexity (map_of (fileMetrics tieExample) ''src/lib/core.ts'') = Some 21 \<and>
   isTestFile ''src/lib/core.ts'' = False \<and>
   js_round (min (3 / 30) 1 * 35 + min (0 / 5) 1 * 25 + min (59 / 100) 1 * 20 + 10
             + min (21 / 50) 1 * 10) = 30 \<and>
   impactNodes (impactAnalyzer_run binary64 tieExample) =
     [\<lparr> impact_file = ''src/lib/core.ts'', fanIn = 3, featureCount = 0, gitChurn = 59,
        hasTests = False, impactScore = 29, severity = low \<rparr>]"
  by code_simp

subsection \<open>Duplication analyzer\<close>

lemma pairLoopJ_origin:
  "m \<in> set (pairLoopJ h a bs ms) \<Longrightarrow> m \<in> set ms \<or> (\<exists>b\<in>set bs. m = mkMatch h a b)"
proof (induction bs arbitrary: ms)
  case Nil
  then show ?case by simp
next
  case (Cons b bs)
  show ?case
  proof (cases "length (ms @ [mkMatch h a b]) \<ge> MAX_DUPLICATES")
    case True
    then have eq: "pairLoopJ h a (b # bs) ms = ms @ [mkMatch h a b]" by (simp add: Let_def)
    have "m \<in> set (ms @ [mkMatch h a b])" using Cons.prems by (simp only: eq)
    then show ?thesis by auto
  next
    case False
    then have eq: "pairLoopJ h a (b # bs) ms = pairLoopJ h a bs (ms @ [mkMatch h a b])"
      by (simp add: Let_def)
    have "m \<in> set (ms @ [mkMatch h a b]) \<or> (\<exists>b'\<in>set bs. m = mkMatch h a b')"
      by (rule Cons.IH) (use Cons.prems in \<open>simp only: eq\<close>)
    then show ?thesis by auto
  qed
qed

lemma pairOf_Cons: "pairOf h reps m \<Longrightarrow> pairOf h (a # reps) m"
  unfolding pairOf_def by (metis append_Cons)

lemma pairOf_head: "b \<in> set bs \<Longrightarrow> pairOf h (a # bs) (mkMatch h a b)"
proof -
  assume "b \<in> set bs"
  then obtain mid post where "bs = mid @ b # post" by (meson split_list)
  then have "a # bs = [] @ a # mid @ b # post" by simp
  then show ?thesis unfolding pairOf_def by blast
qed

lemma pairLoopI_origin:
  "m \<in> set (pairLoopI h reps ms) \<Longrightarrow> m \<in> set ms \<or> pairOf h reps m"
proof (induction reps arbitrary: ms)
  case Nil
  then show ?case by simp
next
  case (Cons a reps)
  let ?ms' = "pairLoopJ h a reps ms"
  have step: "x \<in> set ?ms' \<Longrightarrow> x \<in> set ms \<or> pairOf h (a # reps) x" for x
    using pairLoopJ_origin[of x h a reps ms] pairOf_head by blast
  show ?case
  proof (cases "length ?ms' \<ge> MAX_DUPLICATES")
    case True
    then have eq: "pairLoopI h (a # reps) ms = ?ms'" by (simp add: Let_def)
    have "m \<in> set ?ms'" using Cons.prems by (simp only: eq)
    then show ?thesis using step by blast
  next
    case False
    then have eq: "pairLoopI h (a # reps) ms = pairLoopI h reps ?ms'" by (simp add: Let_def)
    have "m \<in> set ?ms' \<or> pairOf h reps m"
      by (rule Cons.IH) (use Cons.prems in \<open>simp only: eq\<close>)
    then show ?thesis using step pairOf_Cons by blast
  qed
qed

lemma groupStep_ok:
  assumes "groupsOk es groups" and "e \<in> set es"
  shows "groupsOk es (groupStep e groups)"
proof -
  have d: "distinct (map fst (groupStep e groups))"
    using assms(1) by (cases "map_of groups (entry_file e)")
      (simp_all add: groupStep_def groupsOk_def distinct_update)
  have "entry_file (fst (snd g)) = fst g \<and> fst (snd g) \<in> set es" if "g \<in> set (groupStep e groups)" for g
  proof (cases "map_of groups (entry_file e)")
    case None
    then have "g \<in> insert (entry_file e, (e, [])) (set groups)"
      using that set_update_subset[of "entry_file e" "(e, [])" groups] by (auto simp: groupStep_def)
    then show ?thesis using assms by (auto simp: groupsOk_def list_all_iff)
  next
    case (Some g0)
    then have old: "(entry_file e, g0) \<in> set groups" by (rule map_of_SomeD)
    have "g \<in> insert (entry_file e, (fst g0, snd g0 @ [e])) (set groups)"
      using that Some set_update_subset[of "entry_file e" "(fst g0, snd g0 @ [e])" groups]
      by (auto simp: groupStep_def)
    then show ?thesis using assms old by (auto simp: groupsOk_def list_all_iff)
  qed
  then show ?thesis using d by (simp add: groupsOk_def list_all_iff)
qed

lemma fold_groupStep_ok:
  "groupsOk es groups \<Longrightarrow> set xs \<subseteq> set es \<Longrightarrow> groupsOk es (fold groupStep xs groups)"
  by (induction xs arbitrary: groups) (simp_all add: groupStep_ok)

lemma fileGroupsOf_ok: "groupsOk es (fileGroupsOf es)"
  unfolding fileGroupsOf_def by (rule fold_groupStep_ok) (simp_all add: groupsOk_def)

lemma representatives_keys:
  "list_all (\<lambda>g. entry_file (fst (snd g)) = fst g \<and> fst (snd g) \<in> set es) groups \<Longrightarrow>
   map entry_file (map (\<lambda>g. fst (snd g)) groups) = map fst groups"
  by (induction groups) simp_all

lemma representatives_files:
  assumes "groupsOk es groups"
  shows "map entry_file (map (\<lambda>g. fst (snd g)) groups) = map fst groups"
    and "set (map (\<lambda>g. fst (snd g)) groups) \<subseteq> set es"
proof -
  show "map entry_file (map (\<lambda>g. fst (snd g)) groups) = map fst groups"
    using assms representatives_keys unfolding groupsOk_def by blast
  show "set (map (\<lambda>g. fst (snd g)) groups) \<subseteq> set es"
    using assms by (auto simp: groupsOk_def list_all_iff)
qed

lemma pairOf_representatives:
  assumes "groupsOk es groups" and "pairOf h (map (\<lambda>g. fst (snd g)) groups) m"
  shows "\<exists>a b. a \<in> set es \<and> b \<in> set es \<and> entry_file a \<noteq> entry_file b \<and> m = mkMatch h a b"
proof -
  let ?reps = "map (\<lambda>g. fst (snd g)) groups"
  obtain pre a mid b post where r: "?reps = pre @ a # mid @ b # post" and m: "m = mkMatch h a b"
    using assms(2) unfolding pairOf_def by blast
  have "distinct (map fst groups)" using assms(1) by (simp add: groupsOk_def)
  then have "distinct (map entry_file ?reps)"
    by (simp only: representatives_files(1)[OF assms(1)])
  then have "distinct (map entry_file (pre @ a # mid @ b # post))" using r by simp
  then have "entry_file a \<noteq> entry_file b" by auto
  moreover have "a \<in> set ?reps" "b \<in> set ?reps" using r by simp_all
  then have "a \<in> set es" "b \<in> set es" using representatives_files(2)[OF assms(1)] by blast+
  ultimately show ?thesis using m by blast
qed

lemma matchOf_Cons: "matchOf idx m \<Longrightarrow> matchOf (item # idx) m"
  by (auto simp: matchOf_def)

lemma hashLoop_origin:
  "m \<in> set (hashLoop idx ms) \<Longrightarrow> m \<in> set ms \<or> matchOf idx m"
proof (induction idx arbitrary: ms)
  case Nil
  then show ?case by simp
next
  case (Cons item idx)
  let ?groups = "fileGroupsOf (snd item)"
  let ?ms' = "pairLoopI (fst item) (map (\<lambda>g. fst (snd g)) ?groups) ms"
  have step: "x \<in> set ?ms' \<Longrightarrow> x \<in> set ms \<or> matchOf (item # idx) x" for x
  proof -
    assume "x \<in> set ?ms'"
    then have "x \<in> set ms \<or> pairOf (fst item) (map (\<lambda>g. fst (snd g)) ?groups) x"
      by (rule pairLoopI_origin)
    then show ?thesis
      using pairOf_representatives[OF fileGroupsOf_ok, of "fst item" "snd item" x]
      by (auto simp: matchOf_def)
  qed
  consider (skip) "hashLoop (item # idx) ms = hashLoop idx ms"
    | (stop) "hashLoop (item # idx) ms = ?ms'"
    | (go) "hashLoop (item # idx) ms = hashLoop idx ?ms'"
    by (cases "length (snd item) < 2"; cases "length ?groups < 2";
        cases "MAX_DUPLICATES \<le> length ?ms'"; simp add: Let_def)
  then show ?case
  proof cases
    case skip
    have "m \<in> set ms \<or> matchOf idx m"
      by (rule Cons.IH) (use Cons.prems in \<open>simp only: skip\<close>)
    then show ?thesis using matchOf_Cons by blast
  next
    case stop
    have "m \<in> set ?ms'" using Cons.prems by (simp only: stop)
    then show ?thesis using step by blast
  next
    case go
    have "m \<in> set ?ms' \<or> matchOf idx m"
      by (rule Cons.IH) (use Cons.prems in \<open>simp only: go\<close>)
    then show ?thesis using step matchOf_Cons by blast
  qed
qed

lemma dedupe_subset: "set (dedupe seen ms) \<subseteq> set ms"
  by (induction ms arbitrary: seen) auto

lemma duplications_origin:
  assumes "m \<in> set (duplications (duplicationAnalyzer_run ext s))"
  shows "matchOf (buildHashIndex ext (files s)) m"
proof -
  have "m \<in> set (hashLoop (buildHashIndex ext (files s)) [])"
    using assms dedupe_subset by (auto simp: duplicationAnalyzer_run_def)
  then show ?thesis using hashLoop_origin by fastforce
qed

text \<open>
  Claim C10.  Every match that the duplication analyzer reports has a \<open>lineCount\<close> of 6,
  the minimum chunk size, whatever the store, the file contents and the digest, and so
  whatever window size produced the shared hash.
\<close>

theorem reported_lineCount_is_six:
  "\<forall>m\<in>set (duplications (duplicationAnalyzer_run ext s)). lineCount m = 6"
proof
  fix m assume "m \<in> set (duplications (duplicationAnalyzer_run ext s))"
  then have "matchOf (buildHashIndex ext (files s)) m" by (rule duplications_origin)
  then show "lineCount m = 6" by (auto simp: matchOf_def mkMatch_def MIN_CHUNK_SIZE_def)
qed

lemma dupExample_result:
  "map (\<lambda>m. (fileA m, fileB m, lineCount m, hash m))
     (duplications (duplicationAnalyzer_run (exExternals dupContent) dupExample))
   = [(''src/cart/total.ts'', ''src/order/sum.ts'', 6, ''const total = it'')]"
  by code_simp

theorem reported_lineCount_is_six_witness:
  "map lineCount (duplications (duplicationAnalyzer_run (exExternals dupContent) dupExample)) = [6]"
proof -
  note inst = reported_lineCount_is_six[of "exExternals dupContent" dupExample]
  have "map lineCount (duplications (duplicationAnalyzer_run (exExternals dupContent) dupExample))
        = map (\<lambda>t. fst (snd (snd t))) (map (\<lambda>m. (fileA m, fileB m, lineCount m, hash m))
            (duplications (duplicationAnalyzer_run (exExternals dupContent) dupExample)))"
    by (simp add: comp_def)
  then show ?thesis using inst unfolding dupExample_result by simp
qed

lemma str_less_asym: "str_less a b \<Longrightarrow> \<not> str_less b a"
  by (induction a b rule: str_less.induct) (auto split: if_splits)

lemma str_less_total: "\<not> str_less a b \<Longrightarrow> \<not> str_less b a \<Longrightarrow> a = b"
proof (induction a b rule: str_less.induct)
  case (4 c cs d ds)
  show ?case
  proof (cases "c = d")
    case True
    then show ?thesis using 4 by simp
  next
    case False
    then have "(of_char c :: nat) \<noteq> of_char d" by simp
    then show ?thesis using 4 False by (simp split: if_splits)
  qed
qed simp_all

lemma pairKey_swap:
  assumes "fileA m' = fileB m" and "fileB m' = fileA m"
  shows "pairKey m' = pairKey m"
proof (cases "str_less (fileB m) (fileA m)")
  case True
  then have "\<not> str_less (fileA m) (fileB m)" by (rule str_less_asym)
  then show ?thesis using True assms by (simp add: pairKey_def)
next
  case False
  show ?thesis
  proof (cases "str_less (fileA m) (fileB m)")
    case True
    then show ?thesis using False assms by (simp add: pairKey_def)
  next
    case nless: False
    then have "fileB m = fileA m" using False str_less_total by blast
    then show ?thesis using assms by (simp add: pairKey_def)
  qed
qed

lemma pairKey_same_pair:
  assumes "{fileA m, fileB m} = {fileA m', fileB m'}"
  shows "pairKey m = pairKey m'"
proof -
  have "(fileA m' = fileA m \<and> fileB m' = fileB m) \<or> (fileA m' = fileB m \<and> fileB m' = fileA m)"
    using assms by (metis doubleton_eq_iff)
  then show ?thesis
  proof
    assume "fileA m' = fileA m \<and> fileB m' = fileB m"
    then show ?thesis by (simp add: pairKey_def)
  next
    assume "fileA m' = fileB m \<and> fileB m' = fileA m"
    then show ?thesis using pairKey_swap[of m' m] by simp
  qed
qed

lemma dedupe_keys:
  "distinct (map pairKey (dedupe seen ms)) \<and> (\<forall>m\<in>set (dedupe seen ms). pairKey m \<notin> set seen)"
proof (induction ms arbitrary: seen)
  case Nil
  then show ?case by simp
next
  case (Cons m ms)
  show ?case
  proof (cases "pairKey m \<in> set seen")
    case True
    then show ?thesis using Cons.IH[of seen] by simp
  next
    case False
    have ih: "distinct (map pairKey (dedupe (pairKey m # seen) ms))"
      "\<forall>x\<in>set (dedupe (pairKey m # seen) ms). pairKey x \<notin> set (pairKey m # seen)"
      using Cons.IH[of "pairKey m # seen"] by blast+
    have "pairKey m \<notin> pairKey ` set (dedupe (pairKey m # seen) ms)"
      using ih(2) by auto
    then show ?thesis using False ih by auto
  qed
qed

lemma distinct_pairs_of_keys:
  assumes "distinct (map pairKey ms)"
  shows "distinct (map (\<lambda>m. {fileA m, fileB m}) ms)"
  using assms
proof (induction ms)
  case Nil
  then show ?case by simp
next
  case (Cons m ms)
  have "{fileA m, fileB m} \<notin> (\<lambda>x. {fileA x, fileB x}) ` set ms"
  proof
    assume "{fileA m, fileB m} \<in> (\<lambda>x. {fileA x, fileB x}) ` set ms"
    then obtain x where "x \<in> set ms" "{fileA m, fileB m} = {fileA x, fileB x}" by blast
    then have "pairKey m \<in> pairKey ` set ms" using pairKey_same_pair by blast
    then show False using Cons.prems by simp
  qed
  then show ?case using Cons by simp
qed

lemma scanWindow_keys:
  "distinct (map fst idx) \<Longrightarrow> distinct (map fst (scanWindow ext rel ls chunkSize start idx))"
  by (simp add: scanWindow_def Let_def distinct_update)

lemma fold_scanWindow_keys:
  "distinct (map fst idx) \<Longrightarrow> distinct (map fst (fold (scanWindow ext rel ls chunkSize) starts idx))"
  by (induction starts arbitrary: idx) (simp_all add: scanWindow_keys)

lemma fold_chunkSizes_keys:
  "distinct (map fst idx) \<Longrightarrow>
   distinct (map fst (fold (\<lambda>chunkSize acc. fold (scanWindow ext rel ls chunkSize) (starts chunkSize) acc) sizes idx))"
  by (induction sizes arbitrary: idx) (simp_all add: fold_scanWindow_keys)

lemma scanFile_keys:
  "distinct (map fst idx) \<Longrightarrow> distinct (map fst (scanFile ext entry idx))"
  by (simp add: scanFile_def Let_def fold_chunkSizes_keys)

lemma buildHashIndex_keys: "distinct (map fst (buildHashIndex ext fls))"
proof -
  have "distinct (map fst idx) \<Longrightarrow> distinct (map fst (fold (scanFile ext) fls idx))" for idx
    by (induction fls arbitrary: idx) (simp_all add: scanFile_keys)
  then show ?thesis by (simp add: buildHashIndex_def)
qed

text \<open>
  Claim C6.  The matches that the duplication analyzer reports are matches of two
  different files, no two of them are for the same unordered pair of files, and no
  reported match carries a hash whose recorded occurrences all lie in one file.  This
  holds for every store, hence for every order in which the files are scanned.
\<close>

theorem one_match_per_file_pair:
  "distinct (map (\<lambda>m. {fileA m, fileB m}) (duplications (duplicationAnalyzer_run ext s))) \<and>
   (\<forall>m\<in>set (duplications (duplicationAnalyzer_run ext s)). fileA m \<noteq> fileB m) \<and>
   (\<forall>h es f. map_of (buildHashIndex ext (files s)) h = Some es \<and> (\<forall>e\<in>set es. entry_file e = f)
       \<longrightarrow> (\<forall>m\<in>set (duplications (duplicationAnalyzer_run ext s)). hash m \<noteq> h))"
proof (intro conjI allI impI ballI)
  show "distinct (map (\<lambda>m. {fileA m, fileB m}) (duplications (duplicationAnalyzer_run ext s)))"
    using dedupe_keys distinct_pairs_of_keys by (simp add: duplicationAnalyzer_run_def)
next
  fix m assume "m \<in> set (duplications (duplicationAnalyzer_run ext s))"
  then have "matchOf (buildHashIndex ext (files s)) m" by (rule duplications_origin)
  then show "fileA m \<noteq> fileB m" by (auto simp: matchOf_def mkMatch_def)
next
  fix h es f m
  assume h: "map_of (buildHashIndex ext (files s)) h = Some es \<and> (\<forall>e\<in>set es. entry_file e = f)"
    and m: "m \<in> set (duplications (duplicationAnalyzer_run ext s))"
  show "hash m \<noteq> h"
  proof
    assume eq: "hash m = h"
    have "matchOf (buildHashIndex ext (files s)) m" using m by (rule duplications_origin)
    then obtain item a b where o: "item \<in> set (buildHashIndex ext (files s))"
        "a \<in> set (snd item)" "b \<in> set (snd item)" "entry_file a \<noteq> entry_file b"
        "m = mkMatch (fst item) a b"
      unfolding matchOf_def by blast
    have "fst item = h" using o(5) eq by (simp add: mkMatch_def)
    then have "map_of (buildHashIndex ext (files s)) h = Some (snd item)"
      using o(1) buildHashIndex_keys[of ext "files s"] by (metis map_of_is_SomeI prod.collapse)
    then have "snd item = es" using h by simp
    then show False using o(2,3,4) h by auto
  qed
qed

lemma dupExample_index:
  "map (\<lambda>item. (fst item, map entry_file (snd item)))
     (buildHashIndex (exExternals dupContent) (files dupExample))
   = [(''const total = it'', [''src/cart/total.ts'', ''src/order/sum.ts'']),
      (''export function '', [''src/io/open.ts''])]"
  by code_simp

theorem one_match_per_file_pair_witness:
  "map (\<lambda>item. (fst item, map entry_file (snd item)))
     (buildHashIndex (exExternals dupContent) (files dupExample))
   = [(''const total = it'', [''src/cart/total.ts'', ''src/order/sum.ts'']),
      (''export function '', [''src/io/open.ts''])] \<and>
   map (\<lambda>m. (fileA m, fileB m, lineCount m, hash m))
     (duplications (duplicationAnalyzer_run (exExternals dupContent) dupExample))
   = [(''src/cart/total.ts'', ''src/order/sum.ts'', 6, ''const total = it'')]"
proof -
  note inst = one_match_per_file_pair[of "exExternals dupContent" dupExample]
  show ?thesis using inst dupExample_index dupExample_result by simp
qed

subsection \<open>Quality analyzer: test coverage\<close>

lemma testFilesAmong_all_or_none:
  "testFilesAmong fs = (if list_ex isTestName fs then fs else [])"
proof (cases "list_ex isTestName fs")
  case True
  then have "list_ex (\<lambda>t. str_includes t ''.spec.'' \<or> str_includes t ''.test.'') fs"
    by (simp add: isTestName_def list_ex_iff)
  then show ?thesis using True by (simp add: testFilesAmong_def)
next
  case False
  then have "\<forall>f\<in>set fs. \<not> (str_includes f ''.spec.'' \<or> str_includes f ''.test.'')"
    by (simp add: isTestName_def list_ex_iff)
  then have "filter (\<lambda>f. str_includes f ''.spec.'' \<or> str_includes f ''.test.'' \<or>
                 list_ex (\<lambda>t. str_includes t ''.spec.'' \<or> str_includes t ''.test.'') fs) fs = []"
    by (simp add: filter_empty_conv list_ex_iff)
  then show ?thesis using False by (simp add: testFilesAmong_def)
qed

text \<open>
  Claim C4 at a feature of three files of which exactly one is a test and no other has a
  sibling test: all three files are counted as covered and the test-coverage sub-score is
  10, where a ratio of one third gives 3.
\<close>

theorem test_coverage_one_test_of_three:
  "testFilesAmong [''src/cart/price.ts'', ''src/cart/total.ts'', ''src/cart/cart.test.ts'']
     = [''src/cart/price.ts'', ''src/cart/total.ts'', ''src/cart/cart.test.ts''] \<and>
   featureScores (qualityAnalyzer_run (\<lambda>x. x) (exExternals (\<lambda>p. ''export const x = 1''))
                    coverageExample) = [(''cart'', 10)] \<and>
   clamp (of_int (js_round (1 / 3 * 10))) 0 10 = 3"
  by code_simp

subsection \<open>Import resolution\<close>

lemma find_append_first:
  "List.find P (xs @ ys) = (case List.find P xs of None \<Rightarrow> List.find P ys | Some x \<Rightarrow> Some x)"
  by (induction xs) simp_all

lemma tryExtensions_find:
  "tryExtensions fls p exts = List.find (map_has fls) (map (\<lambda>e. p @ e) exts)"
  by (induction exts) simp_all

lemma applyAliases_find:
  "applyAliases als importPath =
     (case List.find (\<lambda>entry. startsWith importPath (stripTrailingSlash (fst entry) @ ''/'')
                              \<or> importPath = stripTrailingSlash (fst entry)) als of
        None \<Rightarrow> importPath
      | Some entry \<Rightarrow>
          replaceFirst importPath (stripTrailingSlash (fst entry)) (stripTrailingSlash (snd entry)))"
  by (induction als) (simp_all add: Let_def)

lemma find_present: "List.find P xs = Some x \<Longrightarrow> P x"
  by (induction xs) (auto split: if_splits)

text \<open>
  Claim C7, as amended.  A specifier that neither starts with \<open>.\<close> or \<open>/\<close> nor starts with
  an alias prefix resolves to nothing.  Any other specifier has the first alias of the
  table that matches it substituted, is joined to the importer's directory when it then
  starts with a dot, and resolves to the first of these candidates that is an indexed
  path: the path itself; the path plus \<open>.ts\<close>, \<open>.tsx\<close>, \<open>.js\<close>, \<open>.jsx\<close>, \<open>.vue\<close>,
  \<open>.svelte\<close>, \<open>.mjs\<close>; the path plus \<open>/index\<close> plus \<open>.ts\<close>, \<open>.tsx\<close>, \<open>.js\<close>, \<open>.jsx\<close>,
  \<open>.vue\<close> (not \<open>.svelte\<close> or \<open>.mjs\<close>); the path with its own extension stripped.  When
  none is indexed the result is nothing.  The function is total, and a path it returns is
  an indexed path.
\<close>

theorem resolveImportPath_candidates:
  "resolveImportPath importPath fromFile rootDir store als =
     (if \<not> (startsWith importPath ''.'' \<or> startsWith importPath ''/'') \<and>
         \<not> list_ex (\<lambda>entry. startsWith importPath (stripTrailingSlash (fst entry))) als
      then None
      else
        let substituted =
              (case List.find (\<lambda>entry. startsWith importPath (stripTrailingSlash (fst entry) @ ''/'')
                                       \<or> importPath = stripTrailingSlash (fst entry)) als of
                 None \<Rightarrow> importPath
               | Some entry \<Rightarrow>
                   replaceFirst importPath (stripTrailingSlash (fst entry))
                     (stripTrailingSlash (snd entry)));
            p = (if startsWith substituted ''.''
                 then backslashesToSlashes (join (dirname fromFile) substituted)
                 else substituted)
        in List.find (map_has (files store))
             ([p] @ map (\<lambda>e. p @ e) [''.ts'', ''.tsx'', ''.js'', ''.jsx'', ''.vue'', ''.svelte'', ''.mjs'']
                  @ map (\<lambda>e. p @ ''/index'' @ e) [''.ts'', ''.tsx'', ''.js'', ''.jsx'', ''.vue'']
                  @ [stripExt p])) \<and>
   (\<forall>r. resolveImportPath importPath fromFile rootDir store als = Some r \<longrightarrow> map_has (files store) r)"
proof -
  define p where "p = relativeToImporter fromFile (applyAliases als importPath)"
  define cs where "cs = [p] @ map (\<lambda>e. p @ e) [''.ts'', ''.tsx'', ''.js'', ''.jsx'', ''.vue'', ''.svelte'', ''.mjs'']
                  @ map (\<lambda>e. p @ ''/index'' @ e) [''.ts'', ''.tsx'', ''.js'', ''.jsx'', ''.vue'']
                  @ [stripExt p]"
  have cands: "cs = [p] @ map (\<lambda>e. p @ e) extensions @ [stripExt p]"
    by (simp add: extensions_def cs_def)
  have body: "(if map_has (files store) p then Some p
         else (case tryExtensions (files store) p extensions of
                 Some candidate \<Rightarrow> Some candidate
               | None \<Rightarrow> if map_has (files store) (stripExt p) then Some (stripExt p) else None))
        = List.find (map_has (files store)) cs"
    unfolding tryExtensions_find cands
    by (simp only: find_append_first List.find.simps split: option.split) simp
  have main: "resolveImportPath importPath fromFile rootDir store als =
     (if \<not> isRelative importPath \<and> \<not> isAliased als importPath then None
      else List.find (map_has (files store)) cs)"
    unfolding resolveImportPath_def Let_def p_def[symmetric] body ..
  have first: "resolveImportPath importPath fromFile rootDir store als =
     (if \<not> (startsWith importPath ''.'' \<or> startsWith importPath ''/'') \<and>
         \<not> list_ex (\<lambda>entry. startsWith importPath (stripTrailingSlash (fst entry))) als
      then None
      else
        let substituted =
              (case List.find (\<lambda>entry. startsWith importPath (stripTrailingSlash (fst entry) @ ''/'')
                                       \<or> importPath = stripTrailingSlash (fst entry)) als of
                 None \<Rightarrow> importPath
               | Some entry \<Rightarrow>
                   replaceFirst importPath (stripTrailingSlash (fst entry))
                     (stripTrailingSlash (snd entry)));
            p = (if startsWith substituted ''.''
                 then backslashesToSlashes (join (dirname fromFile) substituted)
                 else substituted)
        in List.find (map_has (files store))
             ([p] @ map (\<lambda>e. p @ e) [''.ts'', ''.tsx'', ''.js'', ''.jsx'', ''.vue'', ''.svelte'', ''.mjs'']
                  @ map (\<lambda>e. p @ ''/index'' @ e) [''.ts'', ''.tsx'', ''.js'', ''.jsx'', ''.vue'']
                  @ [stripExt p]))"
    unfolding main cs_def p_def relativeToImporter_def applyAliases_find isRelative_def isAliased_def Let_def ..
  have second: "map_has (files store) r" if "resolveImportPath importPath fromFile rootDir store als = Some r" for r
  proof -
    have "List.find (map_has (files store)) cs = Some r"
      using that unfolding main by (simp split: if_splits)
    then show ?thesis by (rule find_present)
  qed
  show ?thesis using first second by blast
qed

text \<open>
  Claim C7 as stated fails: \<open>src/tools/index.mjs\<close> is indexed and is the candidate "path
  plus \<open>/index\<close> plus a known source extension" for the import of \<open>../tools\<close> from
  \<open>src/app/main.ts\<close>, yet the import resolves to nothing.
\<close>

theorem index_mjs_not_probed_counterexample:
  "map_has (files resolveExample) ''src/tools/index.mjs'' \<and>
   ''src/tools/index.mjs'' \<in> set (spec_candidates (relativeToImporter ''src/app/main.ts'' ''../tools'')) \<and>
   spec_resolve ''../tools'' ''src/app/main.ts'' resolveExample [] = Some ''src/tools/index.mjs'' \<and>
   resolveImportPath ''../tools'' ''src/app/main.ts'' ''/repo'' resolveExample [] = None"
  by code_simp

lemma resolveExample_results:
  "resolveImportPath ''./helper'' ''src/app/main.ts'' ''/repo'' resolveExample [(''@/'', ''src/'')]
     = Some ''src/app/helper.ts''"
  "resolveImportPath ''@/utils/format'' ''src/app/main.ts'' ''/repo'' resolveExample [(''@/'', ''src/'')]
     = Some ''src/utils/format.ts''"
  "resolveImportPath ''../widgets'' ''src/app/main.ts'' ''/repo'' resolveExample [(''@/'', ''src/'')]
     = Some ''src/widgets/index.vue''"
  "resolveImportPath ''lodash'' ''src/app/main.ts'' ''/repo'' resolveExample [(''@/'', ''src/'')]
     = None"
  by code_simp+

theorem resolveImportPath_candidates_witness:
  "resolveImportPath ''./helper'' ''src/app/main.ts'' ''/repo'' resolveExample [(''@/'', ''src/'')]
     = Some ''src/app/helper.ts'' \<and>
   resolveImportPath ''@/utils/format'' ''src/app/main.ts'' ''/repo'' resolveExample [(''@/'', ''src/'')]
     = Some ''src/utils/format.ts'' \<and>
   resolveImportPath ''../widgets'' ''src/app/main.ts'' ''/repo'' resolveExample [(''@/'', ''src/'')]
     = Some ''src/widgets/index.vue'' \<and>
   resolveImportPath ''lodash'' ''src/app/main.ts'' ''/repo'' resolveExample [(''@/'', ''src/'')]
     = None \<and>
   map_has (files resolveExample) ''src/utils/format.ts''"
proof -
  note inst = resolveImportPath_candidates[of "''@/utils/format''" "''src/app/main.ts''" "''/repo''"
                resolveExample "[(''@/'', ''src/'')]"]
  then have "map_has (files resolveExample) ''src/utils/format.ts''"
    using resolveExample_results(2) by blast
  then show ?thesis using resolveExample_results by simp
qed

subsection \<open>Feature grouper\<close>

lemma grows_refl: "grows st st"
  by (simp add: grows_def)

lemma grows_touchI:
  assumes "map_of (featureMap st) fid \<noteq> None"
    and "set (feature_files fe') = membersOf (featureMap st) fid"
  shows "grows st (st \<lparr> featureMap := AList.update fid fe' (featureMap st) \<rparr>)"
  unfolding grows_def using assms by blast

lemma grows_assignI:
  assumes "fid \<noteq> []"
    and "set (feature_files fe') = insert k (membersOf (featureMap st) fid)"
  shows "grows st (st \<lparr> featureMap := AList.update fid fe' (featureMap st),
                        fileToFeature := AList.update k fid (fileToFeature st) \<rparr>)"
  unfolding grows_def using assms by blast

lemma grows_cases:
  assumes "grows st st'"
  obtains (same) "st' = st"
  | (touch) fid fe' where "map_of (featureMap st) fid \<noteq> None"
      "set (feature_files fe') = membersOf (featureMap st) fid"
      "featureMap st' = AList.update fid fe' (featureMap st)"
      "fileToFeature st' = fileToFeature st"
  | (assign) fid fe' k where "fid \<noteq> []"
      "set (feature_files fe') = insert k (membersOf (featureMap st) fid)"
      "featureMap st' = AList.update fid fe' (featureMap st)"
      "fileToFeature st' = AList.update k fid (fileToFeature st)"
proof -
  from assms consider "st' = st"
    | fid fe' where "map_of (featureMap st) fid \<noteq> None"
        "set (feature_files fe') = membersOf (featureMap st) fid"
        "st' = st \<lparr> featureMap := AList.update fid fe' (featureMap st) \<rparr>"
    | fid fe' k where "fid \<noteq> []"
        "set (feature_files fe') = insert k (membersOf (featureMap st) fid)"
        "st' = st \<lparr> featureMap := AList.update fid fe' (featureMap st),
                         fileToFeature := AList.update k fid (fileToFeature st) \<rparr>"
    unfolding grows_def by blast
  then show ?thesis
  proof cases
    case 1
    then show ?thesis by (rule same)
  next
    case (2 fid fe')
    show ?thesis
      by (rule touch[of fid fe']) (use 2 in simp_all)
  next
    case (3 fid fe' k)
    show ?thesis
      by (rule assign[of fid fe' k]) (use 3 in simp_all)
  qed
qed

lemma membersOf_update:
  "membersOf (AList.update fid fe fm) v = (if v = fid then set (feature_files fe) else membersOf fm v)"
  by (simp add: membersOf_def update_conv')

lemma grows_keys:
  assumes "grows st st'"
  shows "map_of (featureMap st) v \<noteq> None \<Longrightarrow> map_of (featureMap st') v \<noteq> None"
    and "map_of (fileToFeature st) k \<noteq> None \<Longrightarrow> map_of (fileToFeature st') k \<noteq> None"
proof -
  show "map_of (featureMap st) v \<noteq> None \<Longrightarrow> map_of (featureMap st') v \<noteq> None"
    using assms by (cases rule: grows_cases) (simp_all add: update_conv')
  show "map_of (fileToFeature st) k \<noteq> None \<Longrightarrow> map_of (fileToFeature st') k \<noteq> None"
    using assms by (cases rule: grows_cases) (simp_all add: update_conv')
qed

lemma grows_members:
  assumes "grows st st'"
  shows "membersOf (featureMap st) v \<subseteq> membersOf (featureMap st') v"
  using assms by (cases rule: grows_cases) (auto simp add: membersOf_update)

lemma grows_wf:
  assumes "grows st st'" and "wfState st"
  shows "wfState st'"
  using assms(1)
proof (cases rule: grows_cases)
  case same
  then show ?thesis using assms(2) by simp
next
  case (touch fid fe')
  show ?thesis
    unfolding wfState_def
  proof (intro allI impI)
    fix k v assume "map_of (fileToFeature st') k = Some v"
    then have "map_of (fileToFeature st) k = Some v" using touch(4) by simp
    then have "v \<noteq> [] \<and> map_of (featureMap st) v \<noteq> None"
      using assms(2) unfolding wfState_def by blast
    then show "v \<noteq> [] \<and> map_of (featureMap st') v \<noteq> None"
      using grows_keys(1)[OF assms(1)] by blast
  qed
next
  case (assign fid fe' k0)
  show ?thesis
    unfolding wfState_def
  proof (intro allI impI)
    fix k v assume h: "map_of (fileToFeature st') k = Some v"
    show "v \<noteq> [] \<and> map_of (featureMap st') v \<noteq> None"
    proof (cases "k = k0")
      case True
      then have "v = fid" using h assign(4) by (simp add: update_conv')
      then show ?thesis using assign(1,3) by (simp add: update_conv')
    next
      case False
      then have "map_of (fileToFeature st) k = Some v" using h assign(4) by (simp add: update_conv')
      then have "v \<noteq> [] \<and> map_of (featureMap st) v \<noteq> None"
        using assms(2) unfolding wfState_def by blast
      then show ?thesis using grows_keys(1)[OF assms(1)] by blast
    qed
  qed
qed

lemma grows_membersOk:
  assumes "grows st st'" and "membersOk st"
  shows "membersOk st'"
  unfolding membersOk_def
proof (intro allI impI)
  fix k v assume h: "map_of (fileToFeature st') k = Some v"
  have old: "k \<in> membersOf (featureMap st') v"
    if was: "map_of (fileToFeature st) k = Some v"
  proof -
    have "k \<in> membersOf (featureMap st) v"
      using was assms(2) unfolding membersOk_def by blast
    then show ?thesis using grows_members[OF assms(1), of v] by blast
  qed
  from assms(1) show "k \<in> membersOf (featureMap st') v"
  proof (cases rule: grows_cases)
    case same
    then show ?thesis using h old by simp
  next
    case (touch fid fe')
    then show ?thesis using h old by simp
  next
    case (assign fid fe' k0)
    show ?thesis
    proof (cases "k = k0")
      case True
      then have "v = fid" using h assign(4) by (simp add: update_conv')
      then show ?thesis using True assign(2,3) by (simp add: membersOf_update)
    next
      case False
      then have "map_of (fileToFeature st) k = Some v" using h assign(4) by (simp add: update_conv')
      then show ?thesis by (rule old)
    qed
  qed
qed

lemma grows_membersAssigned:
  assumes "grows st st'" and "membersAssigned st"
  shows "membersAssigned st'"
  unfolding membersAssigned_def
proof (intro allI impI)
  fix fid0 k assume h: "k \<in> membersOf (featureMap st') fid0"
  have old: "map_of (fileToFeature st') k \<noteq> None" if was: "k \<in> membersOf (featureMap st) v" for v
  proof -
    have "map_of (fileToFeature st) k \<noteq> None"
      using was assms(2) unfolding membersAssigned_def by blast
    then show ?thesis using grows_keys(2)[OF assms(1)] by blast
  qed
  from assms(1) show "map_of (fileToFeature st') k \<noteq> None"
  proof (cases rule: grows_cases)
    case same
    then show ?thesis using h old by simp
  next
    case (touch fid fe')
    have "k \<in> membersOf (featureMap st) fid0"
      using h touch(2,3) by (simp add: membersOf_update split: if_splits)
    then show ?thesis by (rule old)
  next
    case (assign fid fe' k0)
    show ?thesis
    proof (cases "k = k0")
      case True
      then show ?thesis using assign(4) by (simp add: update_conv')
    next
      case False
      then have "k \<in> membersOf (featureMap st) fid0 \<or> k \<in> membersOf (featureMap st) fid"
        using h assign(2,3) by (simp add: membersOf_update split: if_splits)
      then show ?thesis using old by blast
    qed
  qed
qed

lemma consistent_empty: "consistent emptyState"
  by (simp add: consistent_def wfState_def membersOk_def membersAssigned_def membersOf_def
      emptyState_def)

lemma grows_consistent: "grows st st' \<Longrightarrow> consistent st \<Longrightarrow> consistent st'"
  unfolding consistent_def using grows_wf grows_membersOk grows_membersAssigned by blast

lemma membersOf_created: "map_of fm fid = None \<Longrightarrow> membersOf fm fid = {}"
  by (simp add: membersOf_def)

lemma membersOf_found: "map_of fm fid = Some fe \<Longrightarrow> membersOf fm fid = set (feature_files fe)"
  by (simp add: membersOf_def)

lemma signal1_step_grows: "grows st (signal1_step cfg rel st)"
proof (cases "detectFeatureFromPath rel cfg")
  case None
  then show ?thesis by (simp add: signal1_step_def grows_refl)
next
  case (Some fid)
  show ?thesis
  proof (cases "fid = []")
    case True
    then show ?thesis using Some by (simp add: signal1_step_def grows_refl)
  next
    case False
    define feature where
      "feature = (case map_of (featureMap st) fid of None \<Rightarrow> createFeature fid | Some f \<Rightarrow> f)"
    define fe' where
      "fe' = feature \<lparr> feature_files := feature_files feature @ [rel],
                       signals := signals feature @
                         [mkSignal folder (35 / 100)
                            (''File path contains feature folder: '' @ fid)] \<rparr>"
    have eq: "signal1_step cfg rel st =
                st \<lparr> featureMap := AList.update fid fe' (featureMap st),
                     fileToFeature := AList.update rel fid (fileToFeature st) \<rparr>"
      using Some False by (simp add: signal1_step_def Let_def fe'_def feature_def)
    have "set (feature_files feature) = membersOf (featureMap st) fid"
      by (simp add: feature_def membersOf_def createFeature_def split: option.split)
    then have "set (feature_files fe') = insert rel (membersOf (featureMap st) fid)"
      by (simp add: fe'_def)
    then have "grows st (st \<lparr> featureMap := AList.update fid fe' (featureMap st),
                          fileToFeature := AList.update rel fid (fileToFeature st) \<rparr>)"
      by (rule grows_assignI[OF False])
    then show ?thesis by (simp only: eq)
  qed
qed

lemma signal2_step_grows: "grows st (signal2_step rel pagesDir st)"
proof (cases "startsWith rel pagesDir")
  case False
  then show ?thesis by (simp add: signal2_step_def grows_refl)
next
  case True
  show ?thesis
  proof (cases "detectFeatureFromRoute rel pagesDir")
    case None
    then show ?thesis using True by (simp add: signal2_step_def grows_refl)
  next
    case (Some rf)
    note route = Some
    show ?thesis
    proof (cases "rf = []")
      case True
      then show ?thesis using route \<open>startsWith rel pagesDir\<close> by (simp add: signal2_step_def grows_refl)
    next
      case False
      show ?thesis
      proof (cases "map_of (featureMap st) rf")
        case None
        define fe' where
          "fe' = (createFeature rf)
                   \<lparr> feature_files := feature_files (createFeature rf) @ [rel],
                     entryPoints := entryPoints (createFeature rf) @ [rel],
                     signals := signals (createFeature rf) @
                       [mkSignal route (30 / 100) (''Page route: '' @ rel)] \<rparr>"
        have eq: "signal2_step rel pagesDir st =
                    st \<lparr> featureMap := AList.update rf fe' (featureMap st),
                         fileToFeature := AList.update rel rf (fileToFeature st) \<rparr>"
          using route False True None by (simp add: signal2_step_def Let_def fe'_def)
        have "set (feature_files fe') = insert rel (membersOf (featureMap st) rf)"
          using None by (simp add: fe'_def createFeature_def membersOf_created)
        then have "grows st (st \<lparr> featureMap := AList.update rf fe' (featureMap st),
                              fileToFeature := AList.update rel rf (fileToFeature st) \<rparr>)"
          by (rule grows_assignI[OF False])
        then show ?thesis by (simp only: eq)
      next
        case (Some feature)
        define fe' where
          "fe' = feature \<lparr> entryPoints :=
                             (if rel \<in> set (entryPoints feature) then entryPoints feature
                              else entryPoints feature @ [rel]),
                           signals := signals feature @
                             [mkSignal route (30 / 100) (''Page route: '' @ rel)] \<rparr>"
        have eq: "signal2_step rel pagesDir st =
                    st \<lparr> featureMap := AList.update rf fe' (featureMap st) \<rparr>"
          using route False True Some by (simp add: signal2_step_def fe'_def)
        have "map_of (featureMap st) rf \<noteq> None" using Some by simp
        moreover have "set (feature_files fe') = membersOf (featureMap st) rf"
          using Some by (simp add: fe'_def membersOf_found)
        ultimately have "grows st (st \<lparr> featureMap := AList.update rf fe' (featureMap st) \<rparr>)"
          by (rule grows_touchI)
        then show ?thesis by (simp only: eq)
      qed
    qed
  qed
qed

text \<open>One step of signal 3 does not throw and assigns the target exactly when the source
  has a cluster id at that moment.\<close>

lemma signal3_step_reach:
  assumes c: "consistent st"
  shows "\<exists>st'. signal3_step e st = Inr st' \<and> grows st st' \<and>
               dom (map_of (fileToFeature st')) = reachStep e (dom (map_of (fileToFeature st)))"
proof (cases "map_of (fileToFeature st) (source e)")
  case None
  then have "source e \<notin> dom (map_of (fileToFeature st))" by (simp add: domIff)
  then show ?thesis using None by (simp add: signal3_step_def grows_refl reachStep_def)
next
  case (Some sf)
  have w: "wfState st" and a: "membersAssigned st" using c by (simp_all add: consistent_def)
  have src: "source e \<in> dom (map_of (fileToFeature st))" using Some by (simp add: domIff)
  have sf: "sf \<noteq> []" "map_of (featureMap st) sf \<noteq> None"
    using Some w unfolding wfState_def by blast+
  then obtain feature where fe: "map_of (featureMap st) sf = Some feature" by blast
  show ?thesis
  proof (cases "map_of (fileToFeature st) (target e)")
    case tgt: (Some v)
    then have "v \<noteq> []" using w unfolding wfState_def by blast
    then obtain c cs where "v = c # cs" by (cases v) simp_all
    then have "signal3_step e st = Inr st" using Some sf(1) tgt by (simp add: signal3_step_def)
    moreover have "insert (target e) (dom (map_of (fileToFeature st))) = dom (map_of (fileToFeature st))"
      using tgt by (simp add: insert_absorb domIff)
    ultimately show ?thesis using src by (simp add: grows_refl reachStep_def)
  next
    case None
    have notin: "target e \<notin> set (feature_files feature)"
    proof
      assume "target e \<in> set (feature_files feature)"
      then have "target e \<in> membersOf (featureMap st) sf" using fe by (simp add: membersOf_found)
      then have "map_of (fileToFeature st) (target e) \<noteq> None"
        using a unfolding membersAssigned_def by blast
      then show False using None by simp
    qed
    define fe' where
      "fe' = feature \<lparr> feature_files := feature_files feature @ [target e],
                       signals := signals feature @
                         [mkSignal import_cluster (20 / 100)
                            (''Imported by '' @ source e @ '' (feature: '' @ sf @ '')'')] \<rparr>"
    define st' where
      "st' = st \<lparr> featureMap := AList.update sf fe' (featureMap st),
                  fileToFeature := AList.update (target e) sf (fileToFeature st) \<rparr>"
    have eq: "signal3_step e st = Inr st'"
      using Some sf(1) None fe notin by (simp add: signal3_step_def fe'_def st'_def)
    have "set (feature_files fe') = insert (target e) (membersOf (featureMap st) sf)"
      using fe by (simp add: fe'_def membersOf_found)
    then have g: "grows st st'"
      unfolding st'_def by (rule grows_assignI[OF sf(1)])
    have "dom (map_of (fileToFeature st')) = insert (target e) (dom (map_of (fileToFeature st)))"
      by (simp add: st'_def update_conv')
    then show ?thesis using eq g src by (simp add: reachStep_def)
  qed
qed

lemma signal4_inner_grows:
  assumes my: "myFeature \<noteq> []" "map_of (featureMap st) myFeature \<noteq> None"
  shows "\<exists>st'. signal4_inner fls churnFile myFeature coFile st = Inr st' \<and> grows st st'"
proof (cases "\<not> map_has (fileToFeature st) coFile \<and> map_has fls coFile")
  case False
  then have "signal4_inner fls churnFile myFeature coFile st = Inr st"
    unfolding signal4_inner_def by (simp only: if_False)
  then show ?thesis by (simp add: grows_refl)
next
  case True
  obtain feature where fe: "map_of (featureMap st) myFeature = Some feature"
    using my(2) by blast
  show ?thesis
  proof (cases "coFile \<in> set (feature_files feature)")
    case inFiles: True
    have "signal4_inner fls churnFile myFeature coFile st = Inr st"
      using True fe inFiles by (simp add: signal4_inner_def)
    then show ?thesis by (simp add: grows_refl)
  next
    case False
    define fe' where
      "fe' = feature \<lparr> feature_files := feature_files feature @ [coFile],
                       signals := signals feature @
                         [mkSignal git_cochange (15 / 100)
                            (''Co-changed with '' @ churnFile @ '' in git history'')] \<rparr>"
    have eq: "signal4_inner fls churnFile myFeature coFile st =
                Inr (st \<lparr> featureMap := AList.update myFeature fe' (featureMap st),
                          fileToFeature := AList.update coFile myFeature (fileToFeature st) \<rparr>)"
      using True fe False by (simp add: signal4_inner_def fe'_def)
    have "set (feature_files fe') = insert coFile (membersOf (featureMap st) myFeature)"
      using fe by (simp add: fe'_def membersOf_found)
    then have "grows st (st \<lparr> featureMap := AList.update myFeature fe' (featureMap st),
                          fileToFeature := AList.update coFile myFeature (fileToFeature st) \<rparr>)"
      by (rule grows_assignI[OF my(1)])
    then show ?thesis using eq by blast
  qed
qed

lemma assignUnassigned_step_grows: "grows st (assignUnassigned_step rel st)"
proof (cases "map_has (fileToFeature st) rel")
  case True
  then show ?thesis by (simp add: assignUnassigned_step_def grows_refl)
next
  case False
  define feature where
    "feature = (case map_of (featureMap st) ''cross-cutting'' of
                  None \<Rightarrow> (createFeature ''cross-cutting'') \<lparr> isCrossCutting := True \<rparr>
                | Some f \<Rightarrow> f)"
  define fe' where "fe' = feature \<lparr> feature_files := feature_files feature @ [rel] \<rparr>"
  have eq: "assignUnassigned_step rel st =
              st \<lparr> featureMap := AList.update ''cross-cutting'' fe' (featureMap st),
                   fileToFeature := AList.update rel ''cross-cutting'' (fileToFeature st) \<rparr>"
    using False by (simp add: assignUnassigned_step_def Let_def fe'_def feature_def)
  have "set (feature_files feature) = membersOf (featureMap st) ''cross-cutting''"
    by (simp add: feature_def membersOf_def createFeature_def split: option.split)
  then have "set (feature_files fe') = insert rel (membersOf (featureMap st) ''cross-cutting'')"
    by (simp add: fe'_def)
  then have "grows st (st \<lparr> featureMap := AList.update ''cross-cutting'' fe' (featureMap st),
                        fileToFeature := AList.update rel ''cross-cutting'' (fileToFeature st) \<rparr>)"
    by (rule grows_assignI[rotated]) simp
  then show ?thesis by (simp only: eq)
qed

lemma assignUnassigned_step_assigns:
  "map_of (fileToFeature (assignUnassigned_step rel st)) rel \<noteq> None"
proof (cases "map_has (fileToFeature st) rel")
  case True
  then show ?thesis by (simp add: assignUnassigned_step_def map_has_def)
next
  case False
  then show ?thesis by (simp add: assignUnassigned_step_def Let_def update_conv')
qed

lemma fold_consistent:
  assumes "\<And>x s. grows s (f x s)"
  shows "consistent st \<Longrightarrow> consistent (fold f xs st)"
proof (induction xs arbitrary: st)
  case Nil
  then show ?case by simp
next
  case (Cons x xs)
  have "consistent (f x st)" using grows_consistent[OF assms Cons.prems] .
  then have "consistent (fold f xs (f x st))" by (rule Cons.IH)
  then show ?case by simp
qed

lemma forEach_invariant:
  assumes step: "\<And>x s. P s \<Longrightarrow> \<exists>s'. body x s = Inr s' \<and> P s'"
  shows "P st \<Longrightarrow> \<exists>st'. forEach body xs st = Inr st' \<and> P st'"
proof (induction xs arbitrary: st)
  case Nil
  then show ?case by simp
next
  case (Cons x xs)
  obtain s' where s': "body x st = Inr s'" "P s'" using step[OF Cons.prems] by blast
  obtain st' where "forEach body xs s' = Inr st'" "P st'" using Cons.IH[OF s'(2)] by blast
  then show ?case using s'(1) by simp
qed

lemma signal1_consistent: "consistent st \<Longrightarrow> consistent (signal1 cfg rels st)"
  unfolding signal1_def by (rule fold_consistent) (rule signal1_step_grows)

lemma signal2_consistent: "consistent st \<Longrightarrow> consistent (signal2 cfg rels st)"
proof -
  have step: "consistent s \<Longrightarrow> consistent (fold (signal2_step rel) dirs s)" for rel dirs s
    by (rule fold_consistent) (rule signal2_step_grows)
  show "consistent st \<Longrightarrow> consistent (signal2 cfg rels st)"
    unfolding signal2_def by (induction rels arbitrary: st) (simp_all add: step)
qed

lemma afterSignal2_consistent: "consistent (afterSignal2 cfg fls)"
  unfolding afterSignal2_def by (intro signal2_consistent signal1_consistent consistent_empty)

text \<open>The pass of signal 3 does not throw, and the files with a cluster id after it are
  those that the edges reach, one after the other, from the files that had one before.\<close>

lemma signal3_reach:
  "consistent st \<Longrightarrow>
   \<exists>st'. signal3 edges st = Inr st' \<and> consistent st' \<and>
         dom (map_of (fileToFeature st')) = fold reachStep edges (dom (map_of (fileToFeature st)))"
  unfolding signal3_def
proof (induction edges arbitrary: st)
  case Nil
  then show ?case by simp
next
  case (Cons e edges)
  obtain s1 where s1: "signal3_step e st = Inr s1" "grows st s1"
      "dom (map_of (fileToFeature s1)) = reachStep e (dom (map_of (fileToFeature st)))"
    using signal3_step_reach[OF Cons.prems] by blast
  have "consistent s1" using grows_consistent[OF s1(2) Cons.prems] .
  then obtain st' where st': "forEach signal3_step edges s1 = Inr st'" "consistent st'"
      "dom (map_of (fileToFeature st')) = fold reachStep edges (dom (map_of (fileToFeature s1)))"
    using Cons.IH by blast
  show ?case using s1(1,3) st' by simp
qed

lemma signal3_consistent:
  assumes "consistent st"
  shows "\<exists>st'. signal3 edges st = Inr st' \<and> consistent st'"
  using signal3_reach[OF assms] by blast

lemma walks_linked:
  "es \<noteq> [] \<Longrightarrow> walks es a f \<longleftrightarrow> source (hd es) = a \<and> linked es \<and> target (last es) = f"
proof (induction es arbitrary: a)
  case Nil
  then show ?case by simp
next
  case (Cons e es)
  show ?case
  proof (cases es)
    case Nil
    then show ?thesis by auto
  next
    case inner: (Cons e2 es2)
    then have ne: "es \<noteq> []" by simp
    have ih: "walks es (target e) f \<longleftrightarrow> source (hd es) = target e \<and> linked es \<and> target (last es) = f"
      using Cons.IH[OF ne, of "target e"] .
    have l1: "linked (e # es) \<longleftrightarrow> source (hd es) = target e \<and> linked es"
      unfolding inner by (simp add: eq_commute)
    have l2: "last (e # es) = last es" using ne by simp
    have w: "walks (e # es) a f \<longleftrightarrow> source e = a \<and> walks es (target e) f" by simp
    have h: "hd (e # es) = e" by simp
    show ?thesis unfolding w ih l1 l2 h by blast
  qed
qed

lemma reachStep_mono: "A \<subseteq> reachStep e A"
  by (auto simp add: reachStep_def)

lemma fold_reachStep_walks:
  "f \<in> fold reachStep edges A \<longleftrightarrow> (\<exists>es \<in> set (subseqs edges). \<exists>a \<in> A. walks es a f)"
proof (induction edges arbitrary: A)
  case Nil
  then show ?case by simp
next
  case (Cons e edges)
  have "f \<in> fold reachStep (e # edges) A \<longleftrightarrow>
          (\<exists>es \<in> set (subseqs edges). \<exists>a \<in> reachStep e A. walks es a f)"
    using Cons.IH[of "reachStep e A"] by simp
  also have "\<dots> \<longleftrightarrow> (\<exists>es \<in> set (subseqs (e # edges)). \<exists>a \<in> A. walks es a f)"
  proof
    assume "\<exists>es \<in> set (subseqs edges). \<exists>a \<in> reachStep e A. walks es a f"
    then obtain es a where h: "es \<in> set (subseqs edges)" "a \<in> reachStep e A" "walks es a f"
      by blast
    show "\<exists>es \<in> set (subseqs (e # edges)). \<exists>a \<in> A. walks es a f"
    proof (cases "a \<in> A")
      case True
      have "es \<in> set (subseqs (e # edges))" using h(1) by (simp add: Let_def)
      then show ?thesis using True h(3) by blast
    next
      case False
      then have "source e \<in> A" "a = target e"
        using h(2) by (simp_all add: reachStep_def split: if_splits)
      then have "walks (e # es) (source e) f" using h(3) by simp
      moreover have "e # es \<in> set (subseqs (e # edges))" using h(1) by (simp add: Let_def)
      ultimately show ?thesis using \<open>source e \<in> A\<close> by blast
    qed
  next
    assume "\<exists>es \<in> set (subseqs (e # edges)). \<exists>a \<in> A. walks es a f"
    then obtain es a where h: "es \<in> set (subseqs (e # edges))" "a \<in> A" "walks es a f"
      by blast
    from h(1) consider "es \<in> set (subseqs edges)"
      | es' where "es = e # es'" "es' \<in> set (subseqs edges)"
      by (auto simp add: Let_def)
    then show "\<exists>es \<in> set (subseqs edges). \<exists>a \<in> reachStep e A. walks es a f"
    proof cases
      case 1
      moreover have "a \<in> reachStep e A" using h(2) reachStep_mono by blast
      ultimately show ?thesis using h(3) by blast
    next
      case (2 es')
      then have "source e = a" "walks es' (target e) f" using h(3) by simp_all
      then have "target e \<in> reachStep e A" using h(2) by (simp add: reachStep_def)
      then show ?thesis using 2(2) \<open>walks es' (target e) f\<close> by blast
    qed
  qed
  finally show ?case .
qed

lemma reached_iff_chain:
  assumes "map_of assigned f = None"
  shows "f \<in> fold reachStep edges (dom (map_of assigned)) \<longleftrightarrow>
           (\<exists>es \<in> set (subseqs edges). importChain assigned es f)"
proof
  assume "f \<in> fold reachStep edges (dom (map_of assigned))"
  then obtain es a where h: "es \<in> set (subseqs edges)" "a \<in> dom (map_of assigned)" "walks es a f"
    using fold_reachStep_walks by blast
  have ne: "es \<noteq> []"
  proof
    assume "es = []"
    then have "a = f" using h(3) by simp
    then show False using h(2) assms by (simp add: domIff)
  qed
  then have "source (hd es) = a \<and> linked es \<and> target (last es) = f"
    using h(3) walks_linked by blast
  then have "importChain assigned es f"
    using ne h(2) by (simp add: importChain_def map_has_def domIff)
  then show "\<exists>es \<in> set (subseqs edges). importChain assigned es f" using h(1) by blast
next
  assume "\<exists>es \<in> set (subseqs edges). importChain assigned es f"
  then obtain es where h: "es \<in> set (subseqs edges)" "importChain assigned es f" by blast
  then have ne: "es \<noteq> []" and a: "source (hd es) \<in> dom (map_of assigned)"
    and l: "linked es" "target (last es) = f"
    by (simp_all add: importChain_def map_has_def domIff)
  have "walks es (source (hd es)) f" using walks_linked[OF ne] l by blast
  then show "f \<in> fold reachStep edges (dom (map_of assigned))"
    using fold_reachStep_walks h(1) a by blast
qed

text \<open>
  Claim C2, as amended.  Signal 3 makes one pass over the edges in the order of the import
  graph and reads the assignment index as the pass has updated it so far.  The pass does
  not fail, and a file that is unassigned after signals 1 and 2 has a cluster id after the
  pass exactly when the import graph holds a chain of imports, standing in the graph in
  the order of the chain, from a file that signals 1 and 2 assigned to that file.  A chain
  of one edge is an import by an assigned file; a longer chain carries the id across
  several hops within the one pass.
\<close>

theorem signal3_assigns_along_chains:
  assumes "map_of (fileToFeature (afterSignal2 cfg fls)) f = None"
  shows "\<exists>st3. signal3 edges (afterSignal2 cfg fls) = Inr st3 \<and>
           (map_has (fileToFeature st3) f \<longleftrightarrow>
              (\<exists>es \<in> set (subseqs edges). importChain (fileToFeature (afterSignal2 cfg fls)) es f))"
proof -
  obtain st3 where st3: "signal3 edges (afterSignal2 cfg fls) = Inr st3"
      "dom (map_of (fileToFeature st3)) =
         fold reachStep edges (dom (map_of (fileToFeature (afterSignal2 cfg fls))))"
    using signal3_reach[OF afterSignal2_consistent] by blast
  have "map_has (fileToFeature st3) f \<longleftrightarrow> f \<in> dom (map_of (fileToFeature st3))"
    by (simp add: map_has_def domIff)
  also have "\<dots> \<longleftrightarrow> (\<exists>es \<in> set (subseqs edges). importChain (fileToFeature (afterSignal2 cfg fls)) es f)"
    unfolding st3(2) by (rule reached_iff_chain[OF assms])
  finally show ?thesis using st3(1) by blast
qed

lemma detour_start: "fileToFeature (afterSignal2 None detourFiles) = [(''src/cart/a.ts'', ''cart'')]"
  by code_simp

lemma detour_result:
  "map_sum id fileToFeature (signal3 detourEdges (afterSignal2 None detourFiles))
     = Inr [(''src/cart/a.ts'', ''cart''), (''lib/b.ts'', ''cart'')]"
  by code_simp

lemma detour_chains:
  "filter (\<lambda>es. importChain [(''src/cart/a.ts'', ''cart'')] es ''lib/c.ts'') (subseqs detourEdges) = []"
  "filter (\<lambda>es. importChain [(''src/cart/a.ts'', ''cart'')] es ''lib/b.ts'') (subseqs detourEdges)
     = [[exEdge ''src/cart/a.ts'' ''lib/b.ts'']]"
  by code_simp+

theorem signal3_assigns_along_chains_witness:
  "map_of (fileToFeature (afterSignal2 None detourFiles)) ''lib/c.ts'' = None \<and>
   map_of (fileToFeature (afterSignal2 None detourFiles)) ''lib/b.ts'' = None \<and>
   filter (\<lambda>es. importChain (fileToFeature (afterSignal2 None detourFiles)) es ''lib/c.ts'')
     (subseqs detourEdges) = [] \<and>
   filter (\<lambda>es. importChain (fileToFeature (afterSignal2 None detourFiles)) es ''lib/b.ts'')
     (subseqs detourEdges) = [[exEdge ''src/cart/a.ts'' ''lib/b.ts'']] \<and>
   (\<exists>st3. signal3 detourEdges (afterSignal2 None detourFiles) = Inr st3 \<and>
          \<not> map_has (fileToFeature st3) ''lib/c.ts'' \<and> map_has (fileToFeature st3) ''lib/b.ts'')"
proof -
  have c: "map_of (fileToFeature (afterSignal2 None detourFiles)) ''lib/c.ts'' = None"
    by (simp add: detour_start)
  have b: "map_of (fileToFeature (afterSignal2 None detourFiles)) ''lib/b.ts'' = None"
    by (simp add: detour_start)
  have nc: "filter (\<lambda>es. importChain (fileToFeature (afterSignal2 None detourFiles)) es ''lib/c.ts'')
              (subseqs detourEdges) = []"
    by (simp only: detour_start detour_chains)
  have nb: "filter (\<lambda>es. importChain (fileToFeature (afterSignal2 None detourFiles)) es ''lib/b.ts'')
              (subseqs detourEdges) = [[exEdge ''src/cart/a.ts'' ''lib/b.ts'']]"
    by (simp only: detour_start detour_chains)
  have noc: "\<not> (\<exists>es \<in> set (subseqs detourEdges).
                  importChain (fileToFeature (afterSignal2 None detourFiles)) es ''lib/c.ts'')"
    using nc by (simp only: filter_empty_conv) blast
  have "[exEdge ''src/cart/a.ts'' ''lib/b.ts''] \<in> set (filter
          (\<lambda>es. importChain (fileToFeature (afterSignal2 None detourFiles)) es ''lib/b.ts'')
          (subseqs detourEdges))"
    by (simp only: nb) simp
  then have hasb: "\<exists>es \<in> set (subseqs detourEdges).
                  importChain (fileToFeature (afterSignal2 None detourFiles)) es ''lib/b.ts''"
    by (simp only: set_filter) blast
  obtain st3 where st3: "signal3 detourEdges (afterSignal2 None detourFiles) = Inr st3"
      "map_has (fileToFeature st3) ''lib/c.ts'' \<longleftrightarrow>
         (\<exists>es \<in> set (subseqs detourEdges).
            importChain (fileToFeature (afterSignal2 None detourFiles)) es ''lib/c.ts'')"
    using signal3_assigns_along_chains[OF c, of detourEdges] by blast
  obtain st3' where st3': "signal3 detourEdges (afterSignal2 None detourFiles) = Inr st3'"
      "map_has (fileToFeature st3') ''lib/b.ts'' \<longleftrightarrow>
         (\<exists>es \<in> set (subseqs detourEdges).
            importChain (fileToFeature (afterSignal2 None detourFiles)) es ''lib/b.ts'')"
    using signal3_assigns_along_chains[OF b, of detourEdges] by blast
  have same: "st3' = st3" using st3(1) st3'(1) by simp
  have "\<not> map_has (fileToFeature st3) ''lib/c.ts''" using st3(2) noc by blast
  moreover have "map_has (fileToFeature st3) ''lib/b.ts''" using st3'(2) hasb same by blast
  ultimately have "\<exists>st3. signal3 detourEdges (afterSignal2 None detourFiles) = Inr st3 \<and>
          \<not> map_has (fileToFeature st3) ''lib/c.ts'' \<and> map_has (fileToFeature st3) ''lib/b.ts''"
    using st3(1) by blast
  then show ?thesis using c b nc nb by blast
qed

text \<open>
  Claim C2 as stated fails: \<open>lib/c.ts\<close> is unassigned after signals 1 and 2 and is
  imported only by \<open>lib/b.ts\<close>, which is unassigned too, so it is two hops from the one
  assigned file \<open>src/cart/a.ts\<close>; the pass over the edges \<open>a \<rightarrow> b, b \<rightarrow> c\<close> assigns it to
  \<open>cart\<close>, the pass over the same edges in the other order leaves it unassigned.
\<close>

theorem signal3_two_hops_counterexample:
  "fileToFeature (afterSignal2 None chainFiles) = [(''src/cart/a.ts'', ''cart'')] \<and>
   map source (filter (\<lambda>e. target e = ''lib/c.ts'') chainEdges) = [''lib/b.ts''] \<and>
   map_sum id (\<lambda>st. map_of (fileToFeature st) ''lib/c.ts'')
     (signal3 chainEdges (afterSignal2 None chainFiles)) = Inr (Some ''cart'') \<and>
   map_sum id (\<lambda>st. map_of (fileToFeature st) ''lib/c.ts'')
     (signal3 (rev chainEdges) (afterSignal2 None chainFiles)) = Inr None"
  by code_simp

text \<open>
  Claim C8 at a route file under \<open>src/routes/\<close>: signal 1 assigns it to the cluster
  \<open>routes\<close>, the name of its directory under the container \<open>src\<close>; signal 2 finds no
  cluster \<open>checkout\<close> yet, creates it with the file as a member and overwrites the cluster
  id of the file.
\<close>

theorem signal2_overwrites_cluster_id:
  "fileToFeature (signal1 (Some routeConfig) (map fst (files routeExample)) emptyState)
     = [(''src/routes/checkout/+page.svelte'', ''routes'')] \<and>
   fileToFeature (signal2 (Some routeConfig) (map fst (files routeExample))
                    (signal1 (Some routeConfig) (map fst (files routeExample)) emptyState))
     = [(''src/routes/checkout/+page.svelte'', ''checkout'')] \<and>
   map (\<lambda>entry. (fst entry, feature_files (snd entry)))
     (featureMap (signal2 (Some routeConfig) (map fst (files routeExample))
                    (signal1 (Some routeConfig) (map fst (files routeExample)) emptyState)))
     = [(''routes'', [''src/routes/checkout/+page.svelte'']),
        (''checkout'', [''src/routes/checkout/+page.svelte''])]"
  by code_simp

text \<open>
  Claim C1 at the same inventory: after the whole run the route file is a member of two
  clusters, \<open>routes\<close> and \<open>checkout\<close>.
\<close>

theorem route_file_in_two_clusters:
  "map_sum id (\<lambda>st. map (\<lambda>fe. (feature_id fe, feature_files fe)) (features st))
     (featureGrouper_run (\<lambda>x. x) routeExample)
   = Inr [(''routes'', [''src/routes/checkout/+page.svelte'']),
          (''checkout'', [''src/routes/checkout/+page.svelte'']),
          (''cross-cutting'', [''src/lib/cart.ts''])]"
  by code_simp

subsection \<open>Feature grouper: no exception, and every file in a cluster\<close>

lemma signal4_file_consistent:
  assumes c: "consistent st"
  shows "\<exists>st'. signal4_file fls entry st = Inr st' \<and> consistent st'"
proof (cases "map_of (fileToFeature st) (fst entry)")
  case None
  then show ?thesis using c by (simp add: signal4_file_def)
next
  case (Some my)
  have "wfState st" using c by (simp add: consistent_def)
  then have my: "my \<noteq> []" "map_of (featureMap st) my \<noteq> None"
    using Some unfolding wfState_def by blast+
  have "\<exists>st'. forEach (signal4_inner fls (fst entry) my) (take 10 (coChangedWith (snd entry))) st = Inr st'
            \<and> (consistent st' \<and> map_of (featureMap st') my \<noteq> None)"
  proof (rule forEach_invariant[where P = "\<lambda>s. consistent s \<and> map_of (featureMap s) my \<noteq> None"])
    show "consistent st \<and> map_of (featureMap st) my \<noteq> None" using c my(2) by simp
  next
    fix x s assume h: "consistent s \<and> map_of (featureMap s) my \<noteq> None"
    then obtain s' where s': "signal4_inner fls (fst entry) my x s = Inr s'" "grows s s'"
      using signal4_inner_grows[OF my(1), of s fls "fst entry" x] by blast
    have "consistent s'" using grows_consistent[OF s'(2)] h by blast
    moreover have "map_of (featureMap s') my \<noteq> None" using grows_keys(1)[OF s'(2)] h by blast
    ultimately show "\<exists>s'. signal4_inner fls (fst entry) my x s = Inr s' \<and>
                          (consistent s' \<and> map_of (featureMap s') my \<noteq> None)"
      using s'(1) by blast
  qed
  then show ?thesis using Some my(1) by (auto simp add: signal4_file_def)
qed

lemma signal4_consistent:
  assumes c: "consistent st"
  shows "\<exists>st'. signal4 store st = Inr st' \<and> consistent st'"
proof (cases "\<not> skipGit store \<and> length (gitChurns store) > 0")
  case False
  then have "signal4 store st = Inr st" by (auto simp add: signal4_def)
  then show ?thesis using c by simp
next
  case True
  then have "signal4 store st = forEach (signal4_file (files store)) (gitChurns store) st"
    by (simp add: signal4_def)
  moreover have "\<exists>st'. forEach (signal4_file (files store)) (gitChurns store) st = Inr st'
                      \<and> consistent st'"
    by (rule forEach_invariant[where P = consistent, OF _ c]) (rule signal4_file_consistent)
  ultimately show ?thesis by simp
qed

lemma assignUnassigned_consistent: "consistent st \<Longrightarrow> consistent (assignUnassigned rels st)"
  unfolding assignUnassigned_def by (rule fold_consistent) (rule assignUnassigned_step_grows)

lemma fold_assignUnassigned_keeps:
  "map_of (fileToFeature st) k \<noteq> None \<Longrightarrow>
   map_of (fileToFeature (fold assignUnassigned_step rels st)) k \<noteq> None"
proof (induction rels arbitrary: st)
  case Nil
  then show ?case by simp
next
  case (Cons x xs)
  have "map_of (fileToFeature (assignUnassigned_step x st)) k \<noteq> None"
    using grows_keys(2)[OF assignUnassigned_step_grows] Cons.prems by blast
  then have "map_of (fileToFeature (fold assignUnassigned_step xs (assignUnassigned_step x st))) k \<noteq> None"
    by (rule Cons.IH)
  then show ?case by simp
qed

lemma assignUnassigned_assigns:
  "rel \<in> set rels \<Longrightarrow> map_of (fileToFeature (assignUnassigned rels st)) rel \<noteq> None"
  unfolding assignUnassigned_def
proof (induction rels arbitrary: st)
  case Nil
  then show ?case by simp
next
  case (Cons x xs)
  show ?case
  proof (cases "rel = x")
    case True
    have "map_of (fileToFeature (fold assignUnassigned_step xs (assignUnassigned_step x st))) x \<noteq> None"
      by (rule fold_assignUnassigned_keeps) (rule assignUnassigned_step_assigns)
    then show ?thesis using True by simp
  next
    case False
    then have "rel \<in> set xs" using Cons.prems by simp
    then have "map_of (fileToFeature (fold assignUnassigned_step xs (assignUnassigned_step x st))) rel \<noteq> None"
      by (rule Cons.IH)
    then show ?thesis by simp
  qed
qed

text \<open>The grouper does not throw, and after its last pass every indexed file has a
  cluster id and is a member of the cluster of that id.\<close>

lemma groupFiles_assigns_every_file:
  "\<exists>st. groupFiles store = Inr st \<and> consistent st \<and>
        (\<forall>rel \<in> set (map fst (files store)). map_of (fileToFeature st) rel \<noteq> None)"
proof -
  define rels where "rels = map fst (files store)"
  define st2 where "st2 = signal2 (config store) rels (signal1 (config store) rels emptyState)"
  have "consistent st2"
    unfolding st2_def by (intro signal2_consistent signal1_consistent consistent_empty)
  then obtain st3 where st3: "signal3 (importGraph store) st2 = Inr st3" "consistent st3"
    using signal3_consistent by blast
  then obtain st4 where st4: "signal4 store st3 = Inr st4" "consistent st4"
    using signal4_consistent by blast
  have eq: "groupFiles store = Inr (assignUnassigned rels st4)"
    using st3(1) st4(1) by (simp add: groupFiles_def Let_def rels_def st2_def)
  have "consistent (assignUnassigned rels st4)"
    using st4(2) by (rule assignUnassigned_consistent)
  moreover have "\<forall>rel \<in> set rels. map_of (fileToFeature (assignUnassigned rels st4)) rel \<noteq> None"
    using assignUnassigned_assigns by blast
  ultimately show ?thesis using eq by (simp add: rels_def)
qed

lemma featureGrouper_run_covers:
  "\<exists>store'. featureGrouper_run rnd store = Inr store' \<and>
     (\<forall>rel \<in> set (map fst (files store)).
        \<exists>fe \<in> set (features store'). rel \<in> set (feature_files fe))"
proof -
  obtain st where st: "groupFiles store = Inr st" "consistent st"
      "\<forall>rel \<in> set (map fst (files store)). map_of (fileToFeature st) rel \<noteq> None"
    using groupFiles_assigns_every_file by blast
  define store' where
    "store' = store \<lparr> features := map (\<lambda>entry. scoreConfidence rnd (snd entry)) (featureMap st) \<rparr>"
  have run: "featureGrouper_run rnd store = Inr store'"
    using st(1) by (simp add: featureGrouper_run_def store'_def)
  have "\<exists>fe \<in> set (features store'). rel \<in> set (feature_files fe)"
    if mem: "rel \<in> set (map fst (files store))" for rel
  proof -
    obtain v where v: "map_of (fileToFeature st) rel = Some v" using st(3) mem by blast
    have "membersOk st" using st(2) by (simp add: consistent_def)
    then have "rel \<in> membersOf (featureMap st) v"
      using v unfolding membersOk_def by blast
    then obtain fe where fe: "map_of (featureMap st) v = Some fe" "rel \<in> set (feature_files fe)"
      by (auto simp add: membersOf_def split: option.splits)
    have "(v, fe) \<in> set (featureMap st)" using fe(1) by (rule map_of_SomeD)
    then have "scoreConfidence rnd fe \<in> set (features store')"
      by (force simp add: store'_def)
    moreover have "rel \<in> set (feature_files (scoreConfidence rnd fe))"
      using fe(2) by (simp add: scoreConfidence_def Let_def)
    ultimately show ?thesis by blast
  qed
  then show ?thesis using run by blast
qed

end
